theory Spec2Isabelle
  imports Main "HOL-Library.Word"
begin

section \<open>JavaScript values read from the sheet\<close>

text \<open>
  A line of the sheet is an array of cells. A cell is a string, a number or a blank
  (\<open>undefined\<close>, also what an index past the end of the array reads). A number that
  is a safe integer (of magnitude below \<open>2^53\<close>, as a day of the month or a year is)
  is \<open>Num\<close> of a signed 54-bit word; every other number (70.5, 1e+21, NaN) is \<open>Float\<close>
  of the string \<open>ToString\<close> makes of it, which is all the program reads of it.
  Strings are lists of 8-bit characters read as the code points U+0000 to U+00FF.
\<close>

datatype cell = Undefined | Num "54 word" | Float string | Str string

datatype error = TypeError | StoreError

text \<open>\<open>line[i]\<close>: a read past the end of a JavaScript array gives \<open>undefined\<close>.\<close>

definition at :: "cell list \<Rightarrow> nat \<Rightarrow> cell" where
  "at line i = (if i < length line then line ! i else Undefined)"

text \<open>Truthiness, and the operator \<open>a || b\<close>.\<close>

fun truthy :: "cell \<Rightarrow> bool" where
  "truthy Undefined = False"
| "truthy (Num n) = (n \<noteq> 0)"
| "truthy (Float x) = (x \<noteq> ''NaN'')"
| "truthy (Str s) = (s \<noteq> [])"

definition or_js :: "cell \<Rightarrow> cell \<Rightarrow> cell" where
  "or_js a b = (if truthy a then a else b)"

text \<open>
  Decimal digits and \<open>ToString\<close>, as a template literal or \<open>RegExp.test\<close> applies it. A
  safe integer is below \<open>10^21\<close> in magnitude and is written in plain digits.
\<close>

definition digit_char :: "nat \<Rightarrow> char" where
  "digit_char n = ''0123456789'' ! n"

fun digits :: "nat \<Rightarrow> string" where
  "digits n = (if n < 10 then [digit_char n] else digits (n div 10) @ [digit_char (n mod 10)])"

declare digits.simps [simp del]

fun toString :: "cell \<Rightarrow> string" where
  "toString Undefined = ''undefined''"
| "toString (Num n) =
     (if sint n < 0 then CHR ''-'' # digits (nat (- sint n)) else digits (nat (sint n)))"
| "toString (Float x) = x"
| "toString (Str s) = s"

definition is_digit :: "char \<Rightarrow> bool" where
  "is_digit c = (48 \<le> (of_char c :: nat) \<and> (of_char c :: nat) \<le> 57)"

text \<open>
  \<open>String.prototype.toLowerCase\<close> on the code points below U+0100: the letters A to Z
  and the upper-case letters of Latin-1 (U+00C0 to U+00DE without the multiplication
  sign U+00D7) move up by 32.
\<close>

definition lower_char :: "char \<Rightarrow> char" where
  "lower_char c =
     (let n = (of_char c :: nat)
      in if (65 \<le> n \<and> n \<le> 90) \<or> (192 \<le> n \<and> n \<le> 222 \<and> n \<noteq> 215)
         then char_of (n + 32) else c)"

definition toLowerCase :: "string \<Rightarrow> string" where
  "toLowerCase s = map lower_char s"

text \<open>
  \<open>String.prototype.trim\<close> strips white space and line terminators from both ends;
  below U+0100 these are TAB, LF, VT, FF, CR, SPACE and the no-break space U+00A0.
\<close>

definition is_space :: "char \<Rightarrow> bool" where
  "is_space c = ((of_char c :: nat) \<in> {9, 10, 11, 12, 13, 32, 160})"

definition trim :: "string \<Rightarrow> string" where
  "trim s = rev (dropWhile is_space (rev (dropWhile is_space s)))"

section \<open>seed.js: month names and numeric cells\<close>

text \<open>
  \<open>purgeMonth(month)\<close>: \<open>month.toLowerCase().trim()\<close>, then the \<open>switch\<close>. Calling
  \<open>toLowerCase\<close> on \<open>undefined\<close> or on a number throws a TypeError.
\<close>

definition month_switch :: "string \<Rightarrow> string" where
  "month_switch m =
     (if m = ''set'' \<or> m = ''setiembre'' \<or> m = ''septiembre'' then ''sep''
      else if m = ''agosto'' then ''ago''
      else m)"

fun purgeMonth :: "cell \<Rightarrow> error + string" where
  "purgeMonth (Str s) = Inr (month_switch (trim (toLowerCase s)))"
| "purgeMonth Undefined = Inl TypeError"
| "purgeMonth (Num n) = Inl TypeError"
| "purgeMonth (Float x) = Inl TypeError"

text \<open>
  \<open>FLOAT_REGEX = /^\d+([.,]\d+)?$/\<close>. The leading \<open>\d+\<close> must take every leading
  digit, since what follows it is a separator or the end of the string.
\<close>

definition FLOAT_REGEX :: "string \<Rightarrow> bool" where
  "FLOAT_REGEX s =
     (let ds = takeWhile is_digit s; r = dropWhile is_digit s
      in ds \<noteq> [] \<and>
         (case r of
            [] \<Rightarrow> True
          | c # fs \<Rightarrow> (c = CHR ''.'' \<or> c = CHR '','') \<and> fs \<noteq> [] \<and> list_all is_digit fs))"

text \<open>\<open>value.replace(',', '.')\<close> with a string pattern replaces the first comma only.\<close>

fun replace_comma :: "string \<Rightarrow> string" where
  "replace_comma [] = []"
| "replace_comma (c # cs) = (if c = CHR '','' then CHR ''.'' # cs else c # replace_comma cs)"

text \<open>
  \<open>getValue(value)\<close>: \<open>FLOAT_REGEX.test\<close> converts its argument to a string;
  \<open>value.replace\<close> exists on strings only, so a number whose decimal form matches
  throws a TypeError. \<open>None\<close> is the \<open>null\<close> the function returns.
\<close>

definition getValue :: "cell \<Rightarrow> error + string option" where
  "getValue v =
     (if FLOAT_REGEX (toString v)
      then (case v of Str s \<Rightarrow> Inr (Some (replace_comma s)) | _ \<Rightarrow> Inl TypeError)
      else Inr None)"

text \<open>
  The pattern in the words of the specification: one or more digits, optionally
  followed by a decimal separator (comma or dot) and one or more digits.
\<close>

definition spec_quote_pattern :: "string \<Rightarrow> bool" where
  "spec_quote_pattern s =
     (\<exists>ds. ds \<noteq> [] \<and> list_all is_digit ds \<and>
        (s = ds \<or>
         (\<exists>sep fs. (sep = CHR '','' \<or> sep = CHR ''.'') \<and> fs \<noteq> [] \<and> list_all is_digit fs \<and>
            s = ds @ sep # fs)))"

text \<open>The decimal literal of a matching cell: its comma, if any, written as a dot.\<close>

definition spec_decimal :: "string \<Rightarrow> string" where
  "spec_decimal s = map (\<lambda>c. if c = CHR '','' then CHR ''.'' else c) s"

text \<open>
  The month normalization in the words of the specification. White space and
  upper-case letters are listed as characters; a string is bare when neither end is
  white space; a letter is lowercased by moving an upper-case one 32 code points up;
  the known variants "set", "setiembre" and "septiembre" map to the September code
  and "agosto" to the August code, every other token is passed through.
\<close>

definition spec_blank :: "char \<Rightarrow> bool" where
  "spec_blank c =
     (c \<in> set [CHR 0x09, CHR 0x0A, CHR 0x0B, CHR 0x0C, CHR 0x0D, CHR 0x20, CHR 0xA0])"

definition bare :: "string \<Rightarrow> bool" where
  "bare s = (s = [] \<or> (\<not> spec_blank (hd s) \<and> \<not> spec_blank (last s)))"

definition is_upper :: "char \<Rightarrow> bool" where
  "is_upper c =
     (c \<in> set ''ABCDEFGHIJKLMNOPQRSTUVWXYZ'' \<or>
      (192 \<le> (of_char c :: nat) \<and> (of_char c :: nat) \<le> 222 \<and> (of_char c :: nat) \<noteq> 215))"

definition lowers_to :: "char \<Rightarrow> char \<Rightarrow> bool" where
  "lowers_to c d = (if is_upper c then (of_char d :: nat) = of_char c + 32 else d = c)"

definition spec_month_code :: "string \<Rightarrow> string" where
  "spec_month_code n =
     (case map_of [(''set'', ''sep''), (''setiembre'', ''sep''), (''septiembre'', ''sep''),
                   (''agosto'', ''ago'')] n of
        Some code \<Rightarrow> code
      | None \<Rightarrow> n)"

section \<open>Dates: the moment library as seed.js uses it\<close>

text \<open>
  An instant of the UTC time line, written as its UTC calendar fields and the
  milliseconds since midnight. On such fields the order of the time line is the
  lexicographic one.
\<close>

datatype instant = UTC (utcYear: int) (utcMonth: nat) (utcDay: nat) (utcMs: nat)

fun before :: "instant \<Rightarrow> instant \<Rightarrow> bool" where
  "before (UTC y m d t) (UTC y' m' d' t') =
     (y < y' \<or> (y = y' \<and> (m < m' \<or> (m = m' \<and> (d < d' \<or> (d = d' \<and> t < t'))))))"

text \<open>
  A moment is valid and stands for an instant, or it is invalid. A JavaScript
  \<open>Date\<close> likewise holds an instant or is the \<open>Invalid Date\<close>; \<open>toDate()\<close> of an
  invalid moment is the \<open>Invalid Date\<close>.
\<close>

datatype moment = Moment instant | InvalidMoment

datatype jsdate = Date instant | InvalidDate

fun toDate :: "moment \<Rightarrow> jsdate" where
  "toDate (Moment i) = Date i"
| "toDate InvalidMoment = InvalidDate"

text \<open>
  \<open>date.isSameOrBefore(lastDate)\<close> is \<open>isSame(input) || isBefore(input)\<close>; both are
  false when the moment or the input is invalid, and \<open>null\<close> (\<open>None\<close>) is an invalid
  input.
\<close>

fun isSameOrBefore :: "moment \<Rightarrow> jsdate option \<Rightarrow> bool" where
  "isSameOrBefore (Moment a) (Some (Date b)) = (a = b \<or> before a b)"
| "isSameOrBefore (Moment a) (Some InvalidDate) = False"
| "isSameOrBefore (Moment a) None = False"
| "isSameOrBefore InvalidMoment d = False"

text \<open>
  \<open>date.format('L')\<close>: under the locale \<open>es\<close> the format \<open>L\<close> is \<open>DD/MM/YYYY\<close>, each
  field filled with zeros to its width; an invalid moment formats to the locale's
  invalid-date text (the library's default is used here; later versions of the
  locale spell it in Spanish).
\<close>

definition zeroFill :: "nat \<Rightarrow> nat \<Rightarrow> string" where
  "zeroFill n len = replicate (len - length (digits n)) (CHR ''0'') @ digits n"

definition invalidDate :: string where
  "invalidDate = ''Invalid date''"

fun format_L :: "moment \<Rightarrow> string" where
  "format_L (Moment (UTC y m d t)) =
     zeroFill d 2 @ ''/'' @ zeroFill m 2 @ ''/'' @
     (if y < 0 then ''-'' else []) @ zeroFill (nat \<bar>y\<bar>) 4"
| "format_L InvalidMoment = invalidDate"

text \<open>
  \<open>moment.utc(date, 'D-MMM-YYYY')\<close> under the locale \<open>es\<close>. The library is not part of
  the repository, so the functions of seed.js that call it take the parser as the
  parameter \<open>parse\<close>, and what is proved of them holds for every parser. The
  definition below follows the library's forgiving (non-strict) parsing and serves
  the concrete runs. The tokens of the format are matched one after the other, each
  against what the one before left of the string:
  \<^item> \<open>D\<close> takes the first one or two digits found anywhere, skipping what precedes them;
  \<^item> \<open>-\<close> skips through the first hyphen, if there is one;
  \<^item> \<open>MMM\<close> matches only at the start, a Spanish month name or abbreviation in any
    case (each name begins with its abbreviation; what it takes holds no hyphen and no
    digit, so taking the three letters leaves the later tokens the same);
  \<^item> \<open>YYYY\<close> takes the first one to four digits found, two digits being read in 1969
    to 2068.
  A token that finds no match is passed over. With no token matched the moment is
  invalid. A missing year is the current one, and with it a missing month the current
  month; otherwise a missing month is January and a missing day the first. The moment
  is valid when the day exists in the month, and stands for that day's UTC midnight.
\<close>

definition monthsShort :: "(string \<times> nat) list" where
  "monthsShort = [(''ene'', 1), (''feb'', 2), (''mar'', 3), (''abr'', 4), (''may'', 5),
                  (''jun'', 6), (''jul'', 7), (''ago'', 8), (''sep'', 9), (''oct'', 10),
                  (''nov'', 11), (''dic'', 12)]"

definition monthsParse :: "string \<Rightarrow> nat option" where
  "monthsParse s = map_of monthsShort (toLowerCase (take 3 s))"

definition first_digits :: "nat \<Rightarrow> string \<Rightarrow> (string \<times> string) option" where
  "first_digits k s =
     (let r = dropWhile (\<lambda>c. \<not> is_digit c) s; p = takeWhile is_digit (take k r)
      in if r = [] then None else Some (p, drop (length p) r))"

definition skip_hyphen :: "string \<Rightarrow> string" where
  "skip_hyphen s =
     (if CHR ''-'' \<in> set s then tl (dropWhile (\<lambda>c. c \<noteq> CHR ''-'') s) else s)"

definition toInt :: "string \<Rightarrow> nat" where
  "toInt s = foldl (\<lambda>a c. 10 * a + ((of_char c :: nat) - 48)) 0 s"

definition isLeapYear :: "nat \<Rightarrow> bool" where
  "isLeapYear y = ((y mod 4 = 0 \<and> y mod 100 \<noteq> 0) \<or> y mod 400 = 0)"

definition daysInMonth :: "nat \<Rightarrow> nat \<Rightarrow> nat" where
  "daysInMonth y m =
     (if m = 2 then (if isLeapYear y then 29 else 28)
      else if m = 4 \<or> m = 6 \<or> m = 9 \<or> m = 11 then 30 else 31)"

definition parseYear :: "string \<Rightarrow> nat" where
  "parseYear s =
     (if length s = 2 then toInt s + (if toInt s > 68 then 1900 else 2000) else toInt s)"

definition moment_utc :: "instant \<Rightarrow> string \<Rightarrow> moment" where
  "moment_utc now s =
     (let D = first_digits 2 s;
          r1 = skip_hyphen (case D of None \<Rightarrow> s | Some (p, r) \<Rightarrow> r);
          M = monthsParse r1;
          r2 = skip_hyphen (case M of None \<Rightarrow> r1 | Some k \<Rightarrow> drop 3 r1);
          Y = first_digits 4 r2
      in if D = None \<and> M = None \<and> Y = None then InvalidMoment
         else
           (let y = (case Y of None \<Rightarrow> nat (utcYear now) | Some (p, r) \<Rightarrow> parseYear p);
                m = (case M of
                       Some k \<Rightarrow> k
                     | None \<Rightarrow> if Y = None then utcMonth now else 1);
                d = (case D of None \<Rightarrow> 1 | Some (p, r) \<Rightarrow> toInt p)
            in if 1 \<le> d \<and> d \<le> daysInMonth y m then Moment (UTC (int y) m d 0)
               else InvalidMoment))"

section \<open>seed.js: the aggregator\<close>

text \<open>
  The column offsets \<open>COL\<close> (constants/columns) and the currency codes \<open>CURR\<close>
  (constants/currencies) are imported constants; the functions take them as
  parameters.
\<close>

record columns =
  DAY :: nat
  MONTH :: nat
  YEAR :: nat
  USD_BUY :: nat
  USD_SELL :: nat
  ARS_BUY :: nat
  ARS_SELL :: nat
  BRL_BUY :: nat
  BRL_SELL :: nat
  EUR_BUY :: nat
  EUR_SELL :: nat

record currency_codes =
  USD :: string
  ARS :: string
  BRL :: string
  EUR :: string

text \<open>
  Modelled from the spec: constants/columns and constants/currencies are not among the
  sources. The offsets follow the layout of the specification's end-to-end example
  (day, month, year, then the buy and sell cells of each currency); the codes are the
  four supported currencies. They serve the concrete runs.
\<close>

definition COL0 :: columns where
  "COL0 = \<lparr>DAY = 0, MONTH = 1, YEAR = 2, USD_BUY = 3, USD_SELL = 4, ARS_BUY = 5,
           ARS_SELL = 6, BRL_BUY = 7, BRL_SELL = 8, EUR_BUY = 9, EUR_SELL = 10\<rparr>"

definition CURR0 :: currency_codes where
  "CURR0 = \<lparr>USD = ''USD'', ARS = ''ARS'', BRL = ''BRL'', EUR = ''EUR''\<rparr>"

record quote =
  iso :: string
  buy :: "string option"
  sell :: "string option"

record day_record =
  date :: jsdate
  currencies :: "quote list"

text \<open>An exception thrown in a subexpression ends the evaluation of the whole.\<close>

definition bindE :: "error + 'a \<Rightarrow> ('a \<Rightarrow> error + 'b) \<Rightarrow> error + 'b" where
  "bindE r f = (case r of Inl e \<Rightarrow> Inl e | Inr v \<Rightarrow> f v)"

text \<open>\<open>getDate(day, month, year)\<close>: the template literal, then the parser.\<close>

definition getDate :: "(string \<Rightarrow> moment) \<Rightarrow> cell \<Rightarrow> cell \<Rightarrow> cell \<Rightarrow> error + moment" where
  "getDate parse day month year =
     bindE (purgeMonth month)
       (\<lambda>m. Inr (parse (toString day @ ''-'' @ m @ ''.-'' @ toString year)))"

text \<open>The object literal \<open>{iso, buy: getValue(..), sell: getValue(..)}\<close> and the array of four.\<close>

definition mkQuote :: "string \<Rightarrow> cell \<Rightarrow> cell \<Rightarrow> error + quote" where
  "mkQuote code b s =
     bindE (getValue b) (\<lambda>bv. bindE (getValue s) (\<lambda>sv.
       Inr \<lparr>iso = code, buy = bv, sell = sv\<rparr>))"

definition mkCurrencies :: "columns \<Rightarrow> currency_codes \<Rightarrow> cell list \<Rightarrow> error + quote list" where
  "mkCurrencies COL CURR line =
     bindE (mkQuote (USD CURR) (at line (USD_BUY COL)) (at line (USD_SELL COL))) (\<lambda>q1.
     bindE (mkQuote (ARS CURR) (at line (ARS_BUY COL)) (at line (ARS_SELL COL))) (\<lambda>q2.
     bindE (mkQuote (BRL CURR) (at line (BRL_BUY COL)) (at line (BRL_SELL COL))) (\<lambda>q3.
     bindE (mkQuote (EUR CURR) (at line (EUR_BUY COL)) (at line (EUR_SELL COL))) (\<lambda>q4.
       Inr [q1, q2, q3, q4]))))"

text \<open>
  The variables of \<open>makeArrayOfDays\<close> that live across iterations: the object \<open>days\<close>
  (a map from the formatted date to the day) and the carried \<open>month\<close> and \<open>year\<close>,
  both \<open>undefined\<close> before the first row.
\<close>

record state =
  days :: "string \<rightharpoonup> day_record"
  month :: cell
  year :: cell

definition init :: state where
  "init = \<lparr>days = Map.empty, month = Undefined, year = Undefined\<rparr>"

text \<open>
  \<open>month = line[COL.MONTH] || month; year = line[COL.YEAR] || year\<close>: the state after
  the two assignments.
\<close>

definition carry :: "columns \<Rightarrow> state \<Rightarrow> cell list \<Rightarrow> state" where
  "carry COL st line =
     st\<lparr>month := or_js (at line (MONTH COL)) (month st),
        year := or_js (at line (YEAR COL)) (year st)\<rparr>"

text \<open>\<open>date = getDate(day, month, year)\<close> with the row's day and the carried month and year.\<close>

definition resolve :: "columns \<Rightarrow> (string \<Rightarrow> moment) \<Rightarrow> state \<Rightarrow> cell list \<Rightarrow> error + moment" where
  "resolve COL parse st line =
     getDate parse (at line (DAY COL)) (month (carry COL st line)) (year (carry COL st line))"

text \<open>
  One iteration of the loop: \<open>continue\<close> when the date is the same as or before
  \<open>lastDate\<close>, else the assignment \<open>days[date.format('L')] = {date, currencies}\<close>.
\<close>

definition step ::
  "columns \<Rightarrow> currency_codes \<Rightarrow> (string \<Rightarrow> moment) \<Rightarrow> jsdate option \<Rightarrow> state \<Rightarrow> cell list
     \<Rightarrow> error + state" where
  "step COL CURR parse lastDate st line =
     bindE (resolve COL parse st line) (\<lambda>d.
       if isSameOrBefore d lastDate then Inr (carry COL st line)
       else bindE (mkCurrencies COL CURR line) (\<lambda>cs.
         Inr ((carry COL st line)
               \<lparr>days := (days st)(format_L d \<mapsto> \<lparr>date = toDate d, currencies = cs\<rparr>)\<rparr>)))"

fun loop ::
  "columns \<Rightarrow> currency_codes \<Rightarrow> (string \<Rightarrow> moment) \<Rightarrow> jsdate option \<Rightarrow> state \<Rightarrow> cell list list
     \<Rightarrow> error + state" where
  "loop COL CURR parse lastDate st [] = Inr st"
| "loop COL CURR parse lastDate st (line # lines) =
     bindE (step COL CURR parse lastDate st line) (\<lambda>st'. loop COL CURR parse lastDate st' lines)"

text \<open>\<open>makeArrayOfDays({lastDate, lines}, cb)\<close>: the callback receives the object \<open>days\<close>.\<close>

definition makeArrayOfDays ::
  "columns \<Rightarrow> currency_codes \<Rightarrow> (string \<Rightarrow> moment) \<Rightarrow> jsdate option \<Rightarrow> cell list list
     \<Rightarrow> error + (string \<rightharpoonup> day_record)" where
  "makeArrayOfDays COL CURR parse lastDate lines =
     bindE (loop COL CURR parse lastDate init lines) (\<lambda>st. Inr (days st))"

text \<open>\<open>readFile\<close> keeps the lines whose first cell matches \<open>INT_REGEX = /^\d+$/\<close>.\<close>

definition INT_REGEX :: "string \<Rightarrow> bool" where
  "INT_REGEX s = (s \<noteq> [] \<and> list_all is_digit s)"

definition usefulLines :: "cell list list \<Rightarrow> cell list list" where
  "usefulLines lines = filter (\<lambda>line. INT_REGEX (toString (at line 0))) lines"

section \<open>models/currency-day.js: the store\<close>

text \<open>
  The table \<open>currencyDay\<close> behind \<open>db.connection().query\<close>: its rows (iso, date, buy,
  sell), whether the connection answers a query with an error, and the number of
  \<open>INSERT\<close> statements it has been sent.
\<close>

type_synonym db_row = "string \<times> jsdate \<times> string option \<times> string option"

record store =
  table :: "db_row list"
  fault :: bool
  writes :: nat

text \<open>
  \<open>INSERT INTO currencyDay(iso, date, buy, sell) VALUES ?\<close>: the statement is sent; it
  fails on a faulty connection and on an empty list of values, else it appends the
  rows and reports their number as \<open>affectedRows\<close>.
\<close>

definition insert_query :: "store \<Rightarrow> db_row list \<Rightarrow> (error + nat) \<times> store" where
  "insert_query db rows =
     (let db' = db\<lparr>writes := Suc (writes db)\<rparr>
      in if fault db \<or> rows = [] then (Inl StoreError, db')
         else (Inr (length rows), db'\<lparr>table := table db @ rows\<rparr>))"

text \<open>
  \<open>getLastDate\<close>: \<open>SELECT MAX(date)\<close> answers with one row (the guard on the number of
  result rows never fires), whose value is \<open>null\<close> on an empty table.
\<close>

fun later :: "jsdate option \<Rightarrow> db_row \<Rightarrow> jsdate option" where
  "later None (c, Date i, b, s) = Some (Date i)"
| "later (Some (Date j)) (c, Date i, b, s) = Some (Date (if before j i then i else j))"
| "later acc row = acc"

definition getLastDate :: "store \<Rightarrow> error + jsdate option" where
  "getLastDate db = (if fault db then Inl StoreError else Inr (foldl later None (table db)))"

text \<open>
  What \<open>insertDays\<close> may be handed as \<open>days\<close>: an array of days, a plain object keyed
  by formatted date (it has neither \<open>length\<close> nor \<open>forEach\<close>), or \<open>null\<close>/\<open>undefined\<close>.
\<close>

datatype days_arg = Arr "day_record list" | Obj "string \<rightharpoonup> day_record" | Nullish

definition inserts_of :: "day_record list \<Rightarrow> db_row list" where
  "inserts_of ds =
     concat (map (\<lambda>day. map (\<lambda>currency. (iso currency, date day, buy currency, sell currency))
                          (currencies day)) ds)"

text \<open>
  \<open>insertDays(days, cb)\<close>: \<open>!days || days.length === 0\<close> answers 0 at once; on a plain
  object \<open>days.length\<close> is \<open>undefined\<close>, the guard is false and \<open>days.forEach\<close> is not a
  function.
\<close>

fun insertDays :: "store \<Rightarrow> days_arg \<Rightarrow> (error + nat) \<times> store" where
  "insertDays db Nullish = (Inr 0, db)"
| "insertDays db (Arr ds) = (if ds = [] then (Inr 0, db) else insert_query db (inserts_of ds))"
| "insertDays db (Obj m) = (Inl TypeError, db)"

text \<open>
  The waterfall of \<open>seed\<close> after the download, on the rows of the sheet: \<open>readFile\<close> and
  \<open>getLastDate\<close>, then \<open>makeArrayOfDays\<close>, whose result (the object \<open>days\<close>) is handed to
  \<open>insertDays\<close> as it is.
\<close>

definition seed ::
  "columns \<Rightarrow> currency_codes \<Rightarrow> (string \<Rightarrow> moment) \<Rightarrow> store \<Rightarrow> cell list list
     \<Rightarrow> (error + nat) \<times> store" where
  "seed COL CURR parse db sheet =
     (case getLastDate db of
        Inl e \<Rightarrow> (Inl e, db)
      | Inr lastDate \<Rightarrow>
          (case makeArrayOfDays COL CURR parse lastDate (usefulLines sheet) of
             Inl e \<Rightarrow> (Inl e, db)
           | Inr ds \<Rightarrow> insertDays db (Obj ds)))"

text \<open>
  The invariant of the loop, for every entry of \<open>days\<close>: it sits under the key its
  date formats to, and its date passed the test against \<open>lastDate\<close>.
\<close>

definition fresh :: "jsdate option \<Rightarrow> (string \<rightharpoonup> day_record) \<Rightarrow> bool" where
  "fresh lastDate ds =
     (\<forall>k r. ds k = Some r \<longrightarrow>
        (\<exists>m. k = format_L m \<and> date r = toDate m \<and> \<not> isSameOrBefore m lastDate))"

section \<open>Rows for concrete runs\<close>

text \<open>
  The day of the runs, and rows laid out as \<open>COL0\<close> expects. Cells past the end of a
  row are blank; the second and third rows leave month and year to the row before, the
  fourth repeats the first day with the month spelled out, the fifth names a day
  February does not have, the last has a number for its month.
\<close>

definition today0 :: instant where
  "today0 = UTC 2026 11 3 0"

definition row_aug1 :: "cell list" where
  "row_aug1 = [Num 1, Str ''ago'', Num 2020, Str ''70,5'', Str ''71,0'', Str ''0,5'',
               Str ''0,6'', Str ''12'', Str ''13'', Str ''80.1'', Str ''-'']"

definition row_aug2 :: "cell list" where
  "row_aug2 = [Num 2, Undefined, Undefined, Str ''70,7'', Str ''71,2'']"

definition row_aug3 :: "cell list" where
  "row_aug3 = [Num 3, Str [], Undefined, Str ''70,9'', Str ''71,4'']"

definition row_aug1_again :: "cell list" where
  "row_aug1_again = [Num 1, Str ''Agosto '', Num 2020, Str ''99,9'', Str ''100'']"

definition row_feb31 :: "cell list" where
  "row_feb31 = [Num 31, Str ''feb'', Num 2020, Str ''70,7'', Str ''71,2'']"

definition row_month_number :: "cell list" where
  "row_month_number = [Num 5, Num 8, Num 2020, Str ''70,1'', Str ''70,2'']"

text \<open>The four quotes of a row that fills the two USD cells only.\<close>

definition usd_only :: "string \<Rightarrow> string \<Rightarrow> quote list" where
  "usd_only b s =
     [\<lparr>iso = ''USD'', buy = Some b, sell = Some s\<rparr>,
      \<lparr>iso = ''ARS'', buy = None, sell = None\<rparr>,
      \<lparr>iso = ''BRL'', buy = None, sell = None\<rparr>,
      \<lparr>iso = ''EUR'', buy = None, sell = None\<rparr>]"

definition quotes_aug1 :: "quote list" where
  "quotes_aug1 =
     [\<lparr>iso = ''USD'', buy = Some ''70.5'', sell = Some ''71.0''\<rparr>,
      \<lparr>iso = ''ARS'', buy = Some ''0.5'', sell = Some ''0.6''\<rparr>,
      \<lparr>iso = ''BRL'', buy = Some ''12'', sell = Some ''13''\<rparr>,
      \<lparr>iso = ''EUR'', buy = Some ''80.1'', sell = None\<rparr>]"

definition store0 :: store where
  "store0 = \<lparr>table = [], fault = False, writes = 0\<rparr>"

section \<open>Month names\<close>

lemma lower_char_idem: "lower_char (lower_char c) = lower_char c"
  by (auto simp: lower_char_def Let_def)

lemma is_space_lower: "is_space (lower_char c) = is_space c"
  by (auto simp: lower_char_def is_space_def Let_def)

lemma toLowerCase_idem: "toLowerCase (toLowerCase s) = toLowerCase s"
  by (simp add: toLowerCase_def lower_char_idem)

lemma trim_toLowerCase: "trim (toLowerCase s) = toLowerCase (trim s)"
  by (simp add: trim_def toLowerCase_def dropWhile_map rev_map comp_def is_space_lower)

lemma dropWhile_self: "xs = [] \<or> \<not> P (hd xs) \<Longrightarrow> dropWhile P xs = xs"
  by (cases xs) auto

lemma trim_ends: "trim s = [] \<or> (\<not> is_space (hd (trim s)) \<and> \<not> is_space (last (trim s)))"
proof (cases "trim s = []")
  case True
  then show ?thesis by simp
next
  case False
  define t where "t = dropWhile is_space s"
  define v where "v = dropWhile is_space (rev t)"
  have u: "trim s = rev v" by (simp add: trim_def t_def v_def)
  with False have v: "v \<noteq> []" by simp
  then have "\<not> is_space (hd v)" unfolding v_def by (rule hd_dropWhile)
  then have l: "\<not> is_space (last (trim s))" using v by (simp add: u last_rev)
  have "rev t = takeWhile is_space (rev t) @ v" by (simp add: v_def)
  then have "t = rev v @ rev (takeWhile is_space (rev t))"
    by (metis rev_append rev_rev_ident)
  then have ht: "hd t = hd (rev v)" and tn: "t \<noteq> []" using v
    by (metis hd_append2 rev_is_Nil_conv, metis Nil_is_append_conv rev_is_Nil_conv)
  from tn have "\<not> is_space (hd t)" unfolding t_def by (rule hd_dropWhile)
  with ht l show ?thesis by (simp add: u)
qed

lemma trim_fixed:
  assumes "xs = [] \<or> (\<not> is_space (hd xs) \<and> \<not> is_space (last xs))"
  shows "trim xs = xs"
proof (cases "xs = []")
  case True
  then show ?thesis by (simp add: trim_def)
next
  case False
  with assms have h: "\<not> is_space (hd xs)" and l: "\<not> is_space (last xs)" by auto
  from h have a: "dropWhile is_space xs = xs" by (simp add: dropWhile_self)
  from l False have "\<not> is_space (hd (rev xs))" by (simp add: hd_rev)
  then have "dropWhile is_space (rev xs) = rev xs" by (simp add: dropWhile_self)
  with a show ?thesis by (simp add: trim_def)
qed

lemma trim_idem: "trim (trim s) = trim s"
  by (rule trim_fixed) (rule trim_ends)

lemma clean_idem: "trim (toLowerCase (trim (toLowerCase s))) = trim (toLowerCase s)"
  by (simp add: trim_toLowerCase [symmetric] trim_idem toLowerCase_idem)

lemmas string_defs =
  toLowerCase_def lower_char_def trim_def is_space_def month_switch_def Let_def
  char_of_eq_iff

lemma month_switch_clean:
  "trim (toLowerCase (month_switch (trim (toLowerCase s)))) = month_switch (trim (toLowerCase s))"
proof -
  have sep: "trim (toLowerCase ''sep'') = ''sep''" by (simp add: string_defs)
  have ago: "trim (toLowerCase ''ago'') = ''ago''" by (simp add: string_defs)
  show ?thesis
    unfolding month_switch_def using sep ago by (simp add: clean_idem)
qed

lemma month_switch_idem: "month_switch (month_switch m) = month_switch m"
  by (simp add: month_switch_def)

lemma spec_blank_is_space: "spec_blank c = is_space c"
proof -
  have "of_char c = (9::nat) \<longleftrightarrow> c = CHR 0x09" "of_char c = (10::nat) \<longleftrightarrow> c = CHR 0x0A"
    "of_char c = (11::nat) \<longleftrightarrow> c = CHR 0x0B" "of_char c = (12::nat) \<longleftrightarrow> c = CHR 0x0C"
    "of_char c = (13::nat) \<longleftrightarrow> c = CHR 0x0D" "of_char c = (32::nat) \<longleftrightarrow> c = CHR 0x20"
    "of_char c = (160::nat) \<longleftrightarrow> c = CHR 0xA0"
    by (cases c; simp; fail)+
  then show ?thesis by (auto simp: spec_blank_def is_space_def)
qed

lemma upper_letters:
  "c \<in> set ''ABCDEFGHIJKLMNOPQRSTUVWXYZ''
     \<longleftrightarrow> 65 \<le> (of_char c :: nat) \<and> (of_char c :: nat) \<le> 90"
proof
  assume "c \<in> set ''ABCDEFGHIJKLMNOPQRSTUVWXYZ''"
  then show "65 \<le> (of_char c :: nat) \<and> (of_char c :: nat) \<le> 90" by auto
next
  assume r: "65 \<le> (of_char c :: nat) \<and> (of_char c :: nat) \<le> 90"
  define x where "x = (of_char c :: nat)"
  have c: "c = char_of x" by (simp add: x_def)
  from r have "x = 65 \<or> x = 66 \<or> x = 67 \<or> x = 68 \<or> x = 69 \<or> x = 70 \<or> x = 71 \<or> x = 72
      \<or> x = 73 \<or> x = 74 \<or> x = 75 \<or> x = 76 \<or> x = 77 \<or> x = 78 \<or> x = 79 \<or> x = 80 \<or> x = 81
      \<or> x = 82 \<or> x = 83 \<or> x = 84 \<or> x = 85 \<or> x = 86 \<or> x = 87 \<or> x = 88 \<or> x = 89 \<or> x = 90"
    unfolding x_def by arith
  then show "c \<in> set ''ABCDEFGHIJKLMNOPQRSTUVWXYZ''"
    unfolding c by (elim disjE) (simp_all add: char_of_eq_iff)
qed

lemma is_upper_codes:
  "is_upper c \<longleftrightarrow>
     (65 \<le> (of_char c :: nat) \<and> (of_char c :: nat) \<le> 90) \<or>
     (192 \<le> (of_char c :: nat) \<and> (of_char c :: nat) \<le> 222 \<and> (of_char c :: nat) \<noteq> 215)"
  unfolding is_upper_def upper_letters ..

lemma lowers_to_lower_char: "lowers_to c (lower_char c)"
  unfolding lowers_to_def is_upper_codes by (auto simp: lower_char_def Let_def)

lemma spec_month_code_switch: "spec_month_code m = month_switch m"
  by (simp add: spec_month_code_def month_switch_def)

lemma trim_split:
  "\<exists>l r. s = l @ trim s @ r \<and> list_all is_space l \<and> list_all is_space r"
proof -
  define l where "l = takeWhile is_space s"
  define t where "t = dropWhile is_space s"
  define r where "r = rev (takeWhile is_space (rev t))"
  have "rev (trim s @ r) = rev t" by (simp add: trim_def t_def r_def)
  then have "t = trim s @ r" by (simp only: rev_is_rev_conv)
  moreover have "s = l @ t" by (simp add: l_def t_def)
  moreover have "list_all is_space l" "list_all is_space r"
    by (auto simp: l_def r_def list_all_iff dest: set_takeWhileD)
  ultimately show ?thesis by auto
qed

text \<open>
  Claim C5. \<open>purgeMonth\<close> strips the white space around a month name, lowercases
  what is left and maps the aliases: the answer is the code of the lowercased bare core
  of the input. "Septiembre", "SET", "setiembre" and "sep", also with white space
  around them, all give the September code \<open>sep\<close>, "agosto" gives the August code
  \<open>ago\<close>, and purging a purged name returns it unchanged.
\<close>

theorem C5_purgeMonth_aliases_idempotent:
  "(\<exists>l core r n. s = l @ core @ r \<and> list_all spec_blank l \<and> list_all spec_blank r
       \<and> bare core \<and> list_all2 lowers_to core n
       \<and> purgeMonth (Str s) = Inr (spec_month_code n))
   \<and> purgeMonth (Str ''Septiembre'') = Inr ''sep''
   \<and> purgeMonth (Str ''SET'') = Inr ''sep''
   \<and> purgeMonth (Str ''setiembre'') = Inr ''sep''
   \<and> purgeMonth (Str ''sep'') = Inr ''sep''
   \<and> purgeMonth (Str ''agosto'') = Inr ''ago''
   \<and> purgeMonth (Str ''  Septiembre '') = Inr ''sep''
   \<and> purgeMonth (Str (CHR 0x09 # ''SET'' @ [CHR 0x0A])) = Inr ''sep''
   \<and> purgeMonth (Str '' Agosto  '') = Inr ''ago''
   \<and> purgeMonth (Str '' Ene '') = Inr ''ene''
   \<and> bindE (purgeMonth (Str s)) (\<lambda>m. purgeMonth (Str m)) = purgeMonth (Str s)"
proof -
  obtain l r where s: "s = l @ trim s @ r" and l: "list_all is_space l"
    and r: "list_all is_space r"
    using trim_split by blast
  from l r have lr: "list_all spec_blank l" "list_all spec_blank r"
    by (simp_all add: list_all_iff spec_blank_is_space)
  have b: "bare (trim s)"
    using trim_ends [of s] by (simp add: bare_def spec_blank_is_space)
  have low: "list_all2 lowers_to (trim s) (toLowerCase (trim s))"
    by (simp add: toLowerCase_def list_all2_map2 list_all2_same lowers_to_lower_char)
  have p: "purgeMonth (Str s) = Inr (spec_month_code (toLowerCase (trim s)))"
    by (simp add: trim_toLowerCase spec_month_code_switch)
  from s lr b low p have z: "\<exists>l core r n. s = l @ core @ r \<and> list_all spec_blank l
       \<and> list_all spec_blank r \<and> bare core \<and> list_all2 lowers_to core n
       \<and> purgeMonth (Str s) = Inr (spec_month_code n)"
    by blast
  have a: "purgeMonth (Str ''Septiembre'') = Inr ''sep''" by (simp add: string_defs)
  have b: "purgeMonth (Str ''SET'') = Inr ''sep''" by (simp add: string_defs)
  have c: "purgeMonth (Str ''setiembre'') = Inr ''sep''" by (simp add: string_defs)
  have d: "purgeMonth (Str ''sep'') = Inr ''sep''" by (simp add: string_defs)
  have e: "purgeMonth (Str ''agosto'') = Inr ''ago''" by (simp add: string_defs)
  have g: "purgeMonth (Str ''  Septiembre '') = Inr ''sep''" by (simp add: string_defs)
  have h: "purgeMonth (Str (CHR 0x09 # ''SET'' @ [CHR 0x0A])) = Inr ''sep''"
    by (simp add: string_defs)
  have i: "purgeMonth (Str '' Agosto  '') = Inr ''ago''" by (simp add: string_defs)
  have j: "purgeMonth (Str '' Ene '') = Inr ''ene''" by (simp add: string_defs)
  have f: "bindE (purgeMonth (Str s)) (\<lambda>m. purgeMonth (Str m)) = purgeMonth (Str s)"
    by (simp add: bindE_def month_switch_clean month_switch_idem)
  from z a b c d e g h i j f show ?thesis by simp
qed

theorem C5_witness:
  "purgeMonth (Str ''  Septiembre '') = Inr ''sep''
   \<and> bindE (purgeMonth (Str ''  Septiembre '')) (\<lambda>m. purgeMonth (Str m)) = Inr ''sep''"
proof -
  have t: "purgeMonth (Str ''  Septiembre '') = Inr ''sep''" by (simp add: string_defs)
  from C5_purgeMonth_aliases_idempotent [of "''  Septiembre ''"]
  have "bindE (purgeMonth (Str ''  Septiembre '')) (\<lambda>m. purgeMonth (Str m))
          = purgeMonth (Str ''  Septiembre '')"
    by blast
  with t show ?thesis by (simp only:)
qed

section \<open>Numeric cells\<close>

lemma is_digit_not_sep: "is_digit c \<Longrightarrow> c \<noteq> CHR '','' \<and> c \<noteq> CHR ''.''"
  by (auto simp: is_digit_def)

lemma replace_comma_digits:
  "list_all is_digit xs \<Longrightarrow> replace_comma (xs @ ys) = xs @ replace_comma ys"
  by (induction xs) (auto dest: is_digit_not_sep)

lemma spec_decimal_digits: "list_all is_digit xs \<Longrightarrow> spec_decimal xs = xs"
  by (induction xs) (auto simp: spec_decimal_def dest: is_digit_not_sep)

lemma spec_decimal_append: "spec_decimal (xs @ ys) = spec_decimal xs @ spec_decimal ys"
  by (simp add: spec_decimal_def)

lemma FLOAT_REGEX_spec: "FLOAT_REGEX s = spec_quote_pattern s"
proof
  assume m: "FLOAT_REGEX s"
  define ds where "ds = takeWhile is_digit s"
  define r where "r = dropWhile is_digit s"
  have s: "s = ds @ r" by (simp add: ds_def r_def)
  have d: "list_all is_digit ds" by (auto simp: ds_def list_all_iff dest: set_takeWhileD)
  from m have n: "ds \<noteq> []" by (simp add: FLOAT_REGEX_def ds_def Let_def)
  show "spec_quote_pattern s"
  proof (cases r)
    case Nil
    with s d n show ?thesis unfolding spec_quote_pattern_def by auto
  next
    case (Cons c fs)
    with m have "(c = CHR ''.'' \<or> c = CHR '','') \<and> fs \<noteq> [] \<and> list_all is_digit fs"
      by (simp add: FLOAT_REGEX_def r_def Let_def)
    with s d n Cons show ?thesis unfolding spec_quote_pattern_def by blast
  qed
next
  assume "spec_quote_pattern s"
  then obtain ds where n: "ds \<noteq> []" and d: "list_all is_digit ds"
    and c: "s = ds \<or> (\<exists>sep fs. (sep = CHR '','' \<or> sep = CHR ''.'') \<and> fs \<noteq> [] \<and>
              list_all is_digit fs \<and> s = ds @ sep # fs)"
    unfolding spec_quote_pattern_def by blast
  from d have all: "\<forall>x\<in>set ds. is_digit x" by (simp add: list_all_iff)
  from c show "FLOAT_REGEX s"
  proof
    assume e: "s = ds"
    from all have tw: "takeWhile is_digit ds = ds" and dw: "dropWhile is_digit ds = []"
      by simp_all
    show ?thesis unfolding FLOAT_REGEX_def Let_def e tw dw using n by simp
  next
    assume "\<exists>sep fs. (sep = CHR '','' \<or> sep = CHR ''.'') \<and> fs \<noteq> [] \<and>
              list_all is_digit fs \<and> s = ds @ sep # fs"
    then obtain sep fs where sep: "sep = CHR '','' \<or> sep = CHR ''.''" and f: "fs \<noteq> []"
      and fd: "list_all is_digit fs" and s: "s = ds @ sep # fs" by blast
    from sep have ns: "\<not> is_digit sep" by (auto simp: is_digit_def)
    from all ns have tw: "takeWhile is_digit s = ds" and dw: "dropWhile is_digit s = sep # fs"
      by (simp_all add: s takeWhile_append2 dropWhile_append2)
    show ?thesis unfolding FLOAT_REGEX_def Let_def tw dw using n sep f fd by auto
  qed
qed

lemma replace_comma_spec:
  assumes m: "FLOAT_REGEX s"
  shows "replace_comma s = spec_decimal s"
proof -
  define ds where "ds = takeWhile is_digit s"
  define r where "r = dropWhile is_digit s"
  have s: "s = ds @ r" by (simp add: ds_def r_def)
  have d: "list_all is_digit ds" by (auto simp: ds_def list_all_iff dest: set_takeWhileD)
  have "replace_comma r = spec_decimal r"
  proof (cases r)
    case Nil
    then show ?thesis by (simp add: spec_decimal_def)
  next
    case (Cons c fs)
    with m have c: "c = CHR ''.'' \<or> c = CHR '',''" and fd: "list_all is_digit fs"
      by (simp_all add: FLOAT_REGEX_def r_def Let_def)
    from fd have f1: "replace_comma fs = fs" using replace_comma_digits [of fs "[]"] by simp
    from fd have f2: "spec_decimal fs = fs" by (rule spec_decimal_digits)
    have "spec_decimal (c # fs) = (if c = CHR '','' then CHR ''.'' else c) # spec_decimal fs"
      by (simp add: spec_decimal_def)
    with c f1 f2 Cons show ?thesis by auto
  qed
  with d show ?thesis
    by (simp add: s replace_comma_digits spec_decimal_append spec_decimal_digits)
qed

lemmas value_defs = getValue_def FLOAT_REGEX_def is_digit_def digits.simps digit_char_def

text \<open>
  Claim C3, as stated, at a numeric cell: the decimal form of the number 12 matches the
  pattern, and \<open>getValue\<close> throws a TypeError instead of yielding a decimal.
\<close>

theorem C3_numeric_cell_counterexample:
  "FLOAT_REGEX (toString (Num 12)) \<and> getValue (Num 12) = Inl TypeError"
  by (simp add: value_defs)

text \<open>
  Claim C3, amended. For every cell that is a string or blank, \<open>getValue\<close> never
  fails; it yields the decimal literal of the cell (its comma written as a dot) exactly
  when the cell matches the pattern of the specification, and \<open>null\<close> otherwise:
  "1,2345" gives 1.2345, "12.5" gives 12.5, the empty string and "abc" give \<open>null\<close>.
\<close>

theorem C3_getValue_text_cells:
  "getValue (Str s) = Inr (if spec_quote_pattern s then Some (spec_decimal s) else None)
   \<and> getValue Undefined = Inr None
   \<and> getValue (Str ''1,2345'') = Inr (Some ''1.2345'')
   \<and> getValue (Str ''12.5'') = Inr (Some ''12.5'')
   \<and> getValue (Str []) = Inr None
   \<and> getValue (Str ''abc'') = Inr None"
proof -
  have a: "getValue (Str s) = Inr (if spec_quote_pattern s then Some (spec_decimal s) else None)"
    using replace_comma_spec [of s] by (simp add: getValue_def FLOAT_REGEX_spec [symmetric])
  have b: "getValue Undefined = Inr None" by (simp add: value_defs)
  have c: "getValue (Str ''1,2345'') = Inr (Some ''1.2345'')" by (simp add: value_defs)
  have d: "getValue (Str ''12.5'') = Inr (Some ''12.5'')" by (simp add: value_defs)
  have e: "getValue (Str []) = Inr None" by (simp add: value_defs)
  have f: "getValue (Str ''abc'') = Inr None" by (simp add: value_defs)
  from a b c d e f show ?thesis by simp
qed

section \<open>The loop of makeArrayOfDays\<close>

lemma bindE_Inl [simp]: "bindE (Inl e) f = Inl e"
  by (simp add: bindE_def)

lemma bindE_Inr [simp]: "bindE (Inr v) f = f v"
  by (simp add: bindE_def)

lemma bindE_eq_Inr: "bindE r f = Inr y \<longleftrightarrow> (\<exists>v. r = Inr v \<and> f v = Inr y)"
  by (cases r) simp_all

lemma loop_append:
  "loop COL CURR parse lastDate st (xs @ ys) =
     bindE (loop COL CURR parse lastDate st xs) (\<lambda>s. loop COL CURR parse lastDate s ys)"
proof (induction xs arbitrary: st)
  case Nil
  show ?case by simp
next
  case (Cons x xs)
  show ?case
    by (cases "step COL CURR parse lastDate st x") (simp_all add: Cons.IH)
qed

lemma step_Inr:
  assumes "step COL CURR parse lastDate st line = Inr st'"
  obtains d where "resolve COL parse st line = Inr d" "isSameOrBefore d lastDate"
      "st' = carry COL st line"
  | d cs where "resolve COL parse st line = Inr d" "\<not> isSameOrBefore d lastDate"
      "mkCurrencies COL CURR line = Inr cs"
      "st' = (carry COL st line)
               \<lparr>days := (days st)(format_L d \<mapsto> \<lparr>date = toDate d, currencies = cs\<rparr>)\<rparr>"
proof -
  from assms obtain d where d: "resolve COL parse st line = Inr d"
    and r: "(if isSameOrBefore d lastDate then Inr (carry COL st line)
             else bindE (mkCurrencies COL CURR line) (\<lambda>cs.
               Inr ((carry COL st line)
                 \<lparr>days := (days st)(format_L d \<mapsto> \<lparr>date = toDate d, currencies = cs\<rparr>)\<rparr>)))
            = Inr st'"
    unfolding step_def bindE_eq_Inr by blast
  show thesis
  proof (cases "isSameOrBefore d lastDate")
    case True
    with r have "st' = carry COL st line" by simp
    with d True show thesis by (rule that(1))
  next
    case False
    with r obtain cs where "mkCurrencies COL CURR line = Inr cs"
      "st' = (carry COL st line)
               \<lparr>days := (days st)(format_L d \<mapsto> \<lparr>date = toDate d, currencies = cs\<rparr>)\<rparr>"
      by (auto simp: bindE_eq_Inr)
    with d False show thesis by (rule that(2))
  qed
qed

lemma step_context:
  assumes "step COL CURR parse lastDate st line = Inr st'"
  shows "month st' = month (carry COL st line)" "year st' = year (carry COL st line)"
  using assms by (auto elim!: step_Inr simp: carry_def)

lemma step_fresh:
  assumes "step COL CURR parse lastDate st line = Inr st'" "fresh lastDate (days st)"
  shows "fresh lastDate (days st')"
  using assms(1)
proof (cases rule: step_Inr)
  case (1 d)
  with assms(2) show ?thesis by (simp add: carry_def)
next
  case (2 d cs)
  with assms(2) show ?thesis
    unfolding fresh_def by (auto simp: carry_def)
qed

lemma loop_fresh:
  "loop COL CURR parse lastDate st xs = Inr st' \<Longrightarrow> fresh lastDate (days st)
     \<Longrightarrow> fresh lastDate (days st')"
proof (induction xs arbitrary: st)
  case Nil
  then show ?case by simp
next
  case (Cons x xs)
  from Cons.prems(1) obtain s where s: "step COL CURR parse lastDate st x = Inr s"
    and l: "loop COL CURR parse lastDate s xs = Inr st'"
    by (auto simp: bindE_eq_Inr)
  from s Cons.prems(2) have "fresh lastDate (days s)" by (rule step_fresh)
  with l show ?case by (rule Cons.IH)
qed

lemma fresh_init: "fresh lastDate (days init)"
  by (simp add: fresh_def init_def)

lemma makeArrayOfDays_Inr:
  assumes "makeArrayOfDays COL CURR parse lastDate lines = Inr out"
  obtains st where "loop COL CURR parse lastDate init lines = Inr st" "out = days st"
  using assms by (auto simp: makeArrayOfDays_def bindE_eq_Inr)

lemma makeArrayOfDays_fresh:
  assumes "makeArrayOfDays COL CURR parse lastDate lines = Inr out"
  shows "fresh lastDate out"
  using assms loop_fresh fresh_init by (blast elim: makeArrayOfDays_Inr)

lemma toDate_inj: "toDate a = toDate b \<Longrightarrow> a = b"
  by (cases a; cases b) simp_all

lemmas run_defs =
  makeArrayOfDays_def init_def step_def resolve_def carry_def getDate_def
  mkCurrencies_def mkQuote_def getValue_def FLOAT_REGEX_def is_digit_def at_def or_js_def
  COL0_def CURR0_def moment_utc_def first_digits_def skip_hyphen_def today0_def monthsParse_def monthsShort_def
  toInt_def parseYear_def daysInMonth_def isLeapYear_def digits.simps digit_char_def
  toLowerCase_def lower_char_def trim_def is_space_def month_switch_def zeroFill_def
  invalidDate_def Let_def char_of_eq_iff

lemmas row_defs =
  row_aug1_def row_aug2_def row_aug3_def row_aug1_again_def row_feb31_def
  row_month_number_def
  usd_only_def quotes_aug1_def

text \<open>
  Claim C1. With the last known date \<open>D\<close>, no day of the output mapping has a date that
  is the same as or before \<open>D\<close>; in particular none has the date \<open>D\<close> itself.
\<close>

theorem C1_no_day_same_or_before_lastDate:
  assumes "makeArrayOfDays COL CURR parse (Some (Date D)) lines = Inr out"
    and "out k = Some r"
  shows "(\<forall>m. toDate m = date r \<longrightarrow> \<not> isSameOrBefore m (Some (Date D))) \<and> date r \<noteq> Date D"
proof -
  from assms(1) have "fresh (Some (Date D)) out" by (rule makeArrayOfDays_fresh)
  with assms(2) obtain m where m: "date r = toDate m" "\<not> isSameOrBefore m (Some (Date D))"
    unfolding fresh_def by blast
  have a: "\<forall>m'. toDate m' = date r \<longrightarrow> \<not> isSameOrBefore m' (Some (Date D))"
    using m toDate_inj by metis
  have "date r \<noteq> Date D"
  proof
    assume "date r = Date D"
    with m(1) have "m = Moment D" by (cases m) simp_all
    with m(2) show False by simp
  qed
  with a show ?thesis by simp
qed

lemma run_from_aug1:
  "makeArrayOfDays COL0 CURR0 (moment_utc today0) (Some (Date (UTC 2020 8 1 0))) [row_aug1, row_aug2]
     = Inr [''02/08/2020'' \<mapsto>
              \<lparr>date = Date (UTC 2020 8 2 0), currencies = usd_only ''70.7'' ''71.2''\<rparr>]"
  by (simp add: run_defs row_defs)

theorem C1_witness:
  "makeArrayOfDays COL0 CURR0 (moment_utc today0) (Some (Date (UTC 2020 8 1 0))) [row_aug1, row_aug2]
     = Inr [''02/08/2020'' \<mapsto>
              \<lparr>date = Date (UTC 2020 8 2 0), currencies = usd_only ''70.7'' ''71.2''\<rparr>]
   \<and> \<not> isSameOrBefore (Moment (UTC 2020 8 2 0)) (Some (Date (UTC 2020 8 1 0)))
   \<and> Date (UTC 2020 8 2 0) \<noteq> Date (UTC 2020 8 1 0)"
  using run_from_aug1
    C1_no_day_same_or_before_lastDate [OF run_from_aug1, of "''02/08/2020''"
      "\<lparr>date = Date (UTC 2020 8 2 0), currencies = usd_only ''70.7'' ''71.2''\<rparr>"]
  by simp

section \<open>The carried month and year\<close>

lemma or_js_truthy: "truthy a \<or> truthy b \<Longrightarrow> truthy (or_js a b)"
  by (auto simp: or_js_def)

lemma or_js_falsy: "\<not> truthy a \<Longrightarrow> or_js a b = b"
  by (simp add: or_js_def)

lemma purgeMonth_Inr: "purgeMonth c = Inr m \<Longrightarrow> \<exists>s. c = Str s"
  by (cases c) simp_all

lemma resolve_Inr_month:
  assumes "resolve COL parse st line = Inr d"
  shows "\<exists>s. month (carry COL st line) = Str s"
  using assms by (auto simp: resolve_def getDate_def bindE_eq_Inr dest: purgeMonth_Inr)

lemma resolve_Str:
  assumes "month (carry COL st line) = Str s"
  shows "resolve COL parse st line =
           Inr (parse (toString (at line (DAY COL)) @ ''-'' @ month_switch (trim (toLowerCase s))
                         @ ''.-'' @ toString (year (carry COL st line))))"
  using assms by (simp add: resolve_def getDate_def)

lemma step_truthy:
  assumes "step COL CURR parse lastDate st line = Inr st'"
    and "truthy (at line (MONTH COL)) \<or> truthy (month st)"
    and "truthy (at line (YEAR COL)) \<or> truthy (year st)"
  shows "truthy (month st') \<and> truthy (year st')"
  using step_context [OF assms(1)] assms(2,3) by (simp add: carry_def or_js_truthy)

lemma loop_truthy:
  "loop COL CURR parse lastDate st xs = Inr st' \<Longrightarrow> truthy (month st) \<Longrightarrow> truthy (year st)
     \<Longrightarrow> truthy (month st') \<and> truthy (year st')"
proof (induction xs arbitrary: st)
  case Nil
  then show ?case by simp
next
  case (Cons x xs)
  from Cons.prems(1) obtain s where s: "step COL CURR parse lastDate st x = Inr s"
    and l: "loop COL CURR parse lastDate s xs = Inr st'"
    by (auto simp: bindE_eq_Inr)
  from s Cons.prems(2,3) have "truthy (month s) \<and> truthy (year s)"
    by (simp add: step_truthy)
  with l show ?case by (simp add: Cons.IH)
qed

lemma step_month_Str:
  assumes "step COL CURR parse lastDate st line = Inr st'"
  shows "\<exists>s. month st' = Str s"
proof -
  from assms obtain d where "resolve COL parse st line = Inr d" by (auto elim: step_Inr)
  then have "\<exists>s. month (carry COL st line) = Str s" by (rule resolve_Inr_month)
  with step_context(1) [OF assms] show ?thesis by simp
qed

lemma loop_month_Str:
  assumes "loop COL CURR parse lastDate st (xs @ [x]) = Inr st'"
  shows "\<exists>s. month st' = Str s"
proof -
  from assms obtain s where "step COL CURR parse lastDate s x = Inr st'"
    by (auto simp: loop_append bindE_eq_Inr)
  then show ?thesis by (rule step_month_Str)
qed

text \<open>
  Claim C9. Once a row has supplied a non-empty month cell and year cell, the carried
  month and year are defined after every later row and never revert to absent; for
  whatever row comes next, the month and year handed to \<open>getDate\<close> are defined, and
  \<open>getDate\<close> returns a moment unless that row's own month cell is a number.
\<close>

theorem C9_context_stays_defined:
  assumes run: "loop COL CURR parse lastDate st0 (pre @ e # mid) = Inr st"
    and em: "truthy (at e (MONTH COL))"
    and ey: "truthy (at e (YEAR COL))"
  shows "truthy (month st) \<and> truthy (year st)
         \<and> truthy (month (carry COL st line)) \<and> truthy (year (carry COL st line))
         \<and> ((\<exists>d. resolve COL parse st line = Inr d)
              \<or> (\<exists>n. n \<noteq> 0 \<and> at line (MONTH COL) = Num n)
              \<or> (\<exists>x. x \<noteq> ''NaN'' \<and> at line (MONTH COL) = Float x))"
proof -
  from run obtain s0 s1 where "loop COL CURR parse lastDate st0 pre = Inr s0"
    and e: "step COL CURR parse lastDate s0 e = Inr s1"
    and m: "loop COL CURR parse lastDate s1 mid = Inr st"
    by (auto simp: loop_append bindE_eq_Inr)
  from e em ey have "truthy (month s1) \<and> truthy (year s1)" by (simp add: step_truthy)
  with m have t: "truthy (month st)" "truthy (year st)" using loop_truthy by blast+
  then have c: "truthy (month (carry COL st line))" "truthy (year (carry COL st line))"
    by (simp_all add: carry_def or_js_truthy)
  have "pre @ e # mid = (pre @ butlast (e # mid)) @ [last (e # mid)]" by simp
  with run have "\<exists>s. month st = Str s" using loop_month_Str by metis
  then obtain s where s: "month st = Str s" ..
  have "(\<exists>d. resolve COL parse st line = Inr d)
          \<or> (\<exists>n. n \<noteq> 0 \<and> at line (MONTH COL) = Num n)
          \<or> (\<exists>x. x \<noteq> ''NaN'' \<and> at line (MONTH COL) = Float x)"
  proof (cases "at line (MONTH COL)")
    case Undefined
    with s have "month (carry COL st line) = Str s" by (simp add: carry_def or_js_def)
    then show ?thesis by (simp add: resolve_Str)
  next
    case (Num n)
    show ?thesis
    proof (cases "n = 0")
      case True
      with Num s have "month (carry COL st line) = Str s" by (simp add: carry_def or_js_def)
      then show ?thesis by (simp add: resolve_Str)
    next
      case False
      with Num show ?thesis by simp
    qed
  next
    case (Float x)
    show ?thesis
    proof (cases "x = ''NaN''")
      case True
      with Float s have "month (carry COL st line) = Str s" by (simp add: carry_def or_js_def)
      then show ?thesis by (simp add: resolve_Str)
    next
      case False
      with Float show ?thesis by simp
    qed
  next
    case (Str s')
    with s have "\<exists>u. month (carry COL st line) = Str u" by (simp add: carry_def or_js_def)
    then show ?thesis by (auto simp: resolve_Str)
  qed
  with t c show ?thesis by simp
qed

lemma run_two_rows:
  "loop COL0 CURR0 (moment_utc today0) None init [row_aug1, row_aug2] =
     Inr \<lparr>days = [''01/08/2020'' \<mapsto> \<lparr>date = Date (UTC 2020 8 1 0), currencies = quotes_aug1\<rparr>,
                   ''02/08/2020'' \<mapsto> \<lparr>date = Date (UTC 2020 8 2 0),
                                       currencies = usd_only ''70.7'' ''71.2''\<rparr>],
          month = Str ''ago'', year = Num 2020\<rparr>"
  by (simp add: run_defs row_defs)

theorem C9_witness:
  "truthy (at row_aug1 (MONTH COL0)) \<and> truthy (at row_aug1 (YEAR COL0))
   \<and> resolve COL0 (moment_utc today0)
        \<lparr>days = [''01/08/2020'' \<mapsto> \<lparr>date = Date (UTC 2020 8 1 0), currencies = quotes_aug1\<rparr>,
                  ''02/08/2020'' \<mapsto> \<lparr>date = Date (UTC 2020 8 2 0),
                                      currencies = usd_only ''70.7'' ''71.2''\<rparr>],
         month = Str ''ago'', year = Num 2020\<rparr> row_aug3
      = Inr (Moment (UTC 2020 8 3 0))"
proof -
  have m: "truthy (at row_aug1 (MONTH COL0))" and y: "truthy (at row_aug1 (YEAR COL0))"
    by (simp_all add: at_def COL0_def row_defs)
  have r: "loop COL0 CURR0 (moment_utc today0) None init ([] @ row_aug1 # [row_aug2]) =
     Inr \<lparr>days = [''01/08/2020'' \<mapsto> \<lparr>date = Date (UTC 2020 8 1 0), currencies = quotes_aug1\<rparr>,
                   ''02/08/2020'' \<mapsto> \<lparr>date = Date (UTC 2020 8 2 0),
                                       currencies = usd_only ''70.7'' ''71.2''\<rparr>],
          month = Str ''ago'', year = Num 2020\<rparr>"
    using run_two_rows by simp
  have n: "at row_aug3 (MONTH COL0) = Str []" by (simp add: at_def COL0_def row_defs)
  from C9_context_stays_defined [OF r m y, of row_aug3] n m y show ?thesis
    by (simp add: run_defs row_defs)
qed

lemma carry_falsy:
  assumes "\<not> truthy (at r (MONTH COL))" "\<not> truthy (at r (YEAR COL))"
  shows "month (carry COL st r) = month st" "year (carry COL st r) = year st"
  using assms by (simp_all add: carry_def or_js_falsy)

lemma loop_keep_context:
  "loop COL CURR parse lastDate st xs = Inr st'
     \<Longrightarrow> \<forall>r\<in>set xs. \<not> truthy (at r (MONTH COL)) \<and> \<not> truthy (at r (YEAR COL))
     \<Longrightarrow> month st' = month st \<and> year st' = year st"
proof (induction xs arbitrary: st)
  case Nil
  then show ?case by simp
next
  case (Cons x xs)
  from Cons.prems(1) obtain s where s: "step COL CURR parse lastDate st x = Inr s"
    and l: "loop COL CURR parse lastDate s xs = Inr st'"
    by (auto simp: bindE_eq_Inr)
  from Cons.prems(2) have "month (carry COL st x) = month st" "year (carry COL st x) = year st"
    by (simp_all add: carry_falsy)
  with step_context [OF s] have "month s = month st" "year s = year st" by simp_all
  moreover from l Cons.prems(2) have "month st' = month s \<and> year st' = year s"
    by (simp add: Cons.IH)
  ultimately show ?case by simp
qed

lemma august_days:
  assumes "1 \<le> d" "d \<le> 31"
  shows "moment_utc now (digits d @ ''-ago.-2020'') = Moment (UTC 2020 8 d 0)"
proof -
  from assms have "d = 1 \<or> d = 2 \<or> d = 3 \<or> d = 4 \<or> d = 5 \<or> d = 6 \<or> d = 7 \<or> d = 8 \<or> d = 9
      \<or> d = 10 \<or> d = 11 \<or> d = 12 \<or> d = 13 \<or> d = 14 \<or> d = 15 \<or> d = 16 \<or> d = 17 \<or> d = 18
      \<or> d = 19 \<or> d = 20 \<or> d = 21 \<or> d = 22 \<or> d = 23 \<or> d = 24 \<or> d = 25 \<or> d = 26 \<or> d = 27
      \<or> d = 28 \<or> d = 29 \<or> d = 30 \<or> d = 31"
    by arith
  then show ?thesis
    by (elim disjE) (simp_all add: run_defs)
qed

text \<open>
  Claim C4. When only the first row names the month "ago" and the year 2020 and every
  later row leaves both cells empty, every row the loop reaches is resolved with the
  month "ago" and the year 2020: its date is what the parser makes of
  \<open>day-ago.-2020\<close>, which for a day 1 to 31 is that day of August 2020.
\<close>

theorem C4_carry_forward_august_2020:
  assumes fm: "at first (MONTH COL) = Str ''ago''"
    and fy: "at first (YEAR COL) = Num 2020"
    and rest: "\<forall>r\<in>set rest. \<not> truthy (at r (MONTH COL)) \<and> \<not> truthy (at r (YEAR COL))"
    and split: "first # rest = pre @ r # post"
    and run: "loop COL CURR parse lastDate init pre = Inr st"
  shows "month (carry COL st r) = Str ''ago'' \<and> year (carry COL st r) = Num 2020
         \<and> resolve COL parse st r = Inr (parse (toString (at r (DAY COL)) @ ''-ago.-2020''))
         \<and> (\<forall>d. toString (at r (DAY COL)) = digits d \<and> 1 \<le> d \<and> d \<le> 31 \<longrightarrow>
               moment_utc now (toString (at r (DAY COL)) @ ''-ago.-2020'')
                 = Moment (UTC 2020 8 d 0))"
proof -
  have c: "month (carry COL st r) = Str ''ago'' \<and> year (carry COL st r) = Num 2020"
  proof (cases pre)
    case Nil
    with split have "r = first" by simp
    with fm fy show ?thesis by (simp add: carry_def or_js_def)
  next
    case (Cons p pre')
    with split have p: "p = first" and r: "rest = pre' @ r # post" by simp_all
    from run Cons p obtain s where s: "step COL CURR parse lastDate init first = Inr s"
      and l: "loop COL CURR parse lastDate s pre' = Inr st"
      by (auto simp: bindE_eq_Inr)
    from step_context [OF s] fm fy have s1: "month s = Str ''ago''" "year s = Num 2020"
      by (simp_all add: carry_def or_js_def)
    from rest r have "\<forall>x\<in>set pre'. \<not> truthy (at x (MONTH COL)) \<and> \<not> truthy (at x (YEAR COL))"
      by simp
    with l have "month st = month s \<and> year st = year s" by (rule loop_keep_context)
    with s1 have st: "month st = Str ''ago''" "year st = Num 2020" by simp_all
    from rest r have "\<not> truthy (at r (MONTH COL))" "\<not> truthy (at r (YEAR COL))" by simp_all
    with st show ?thesis by (simp add: carry_falsy)
  qed
  have "month_switch (trim (toLowerCase ''ago'')) = ''ago''" by (simp add: string_defs)
  with c have "resolve COL parse st r = Inr (parse (toString (at r (DAY COL)) @ ''-ago.-2020''))"
    by (simp add: resolve_Str digits.simps digit_char_def)
  with c show ?thesis by (simp add: august_days)
qed

lemma run_aug1_from_july:
  "loop COL0 CURR0 (moment_utc today0) (Some (Date (UTC 2020 7 31 0))) init [row_aug1] =
     Inr \<lparr>days = [''01/08/2020'' \<mapsto> \<lparr>date = Date (UTC 2020 8 1 0), currencies = quotes_aug1\<rparr>],
          month = Str ''ago'', year = Num 2020\<rparr>"
  by (simp add: run_defs row_defs)

theorem C4_witness:
  "at row_aug1 (MONTH COL0) = Str ''ago'' \<and> at row_aug1 (YEAR COL0) = Num 2020
   \<and> \<not> truthy (at row_aug2 (MONTH COL0)) \<and> \<not> truthy (at row_aug2 (YEAR COL0))
   \<and> \<not> truthy (at row_aug3 (MONTH COL0)) \<and> \<not> truthy (at row_aug3 (YEAR COL0))
   \<and> resolve COL0 (moment_utc today0)
        \<lparr>days = [''01/08/2020'' \<mapsto> \<lparr>date = Date (UTC 2020 8 1 0), currencies = quotes_aug1\<rparr>],
         month = Str ''ago'', year = Num 2020\<rparr> row_aug2
      = Inr (Moment (UTC 2020 8 2 0))"
proof -
  have fm: "at row_aug1 (MONTH COL0) = Str ''ago''" and fy: "at row_aug1 (YEAR COL0) = Num 2020"
    by (simp_all add: at_def COL0_def row_defs)
  have e: "\<not> truthy (at row_aug2 (MONTH COL0))" "\<not> truthy (at row_aug2 (YEAR COL0))"
    "\<not> truthy (at row_aug3 (MONTH COL0))" "\<not> truthy (at row_aug3 (YEAR COL0))"
    by (simp_all add: at_def COL0_def row_defs)
  then have rest: "\<forall>r\<in>set [row_aug2, row_aug3].
      \<not> truthy (at r (MONTH COL0)) \<and> \<not> truthy (at r (YEAR COL0))"
    by simp
  have split: "row_aug1 # [row_aug2, row_aug3] = [row_aug1] @ row_aug2 # [row_aug3]" by simp
  have d: "toString (at row_aug2 (DAY COL0)) = digits 2"
    by (simp add: at_def COL0_def row_defs)
  from C4_carry_forward_august_2020 [OF fm fy rest split run_aug1_from_july] d
  have "resolve COL0 (moment_utc today0)
          \<lparr>days = [''01/08/2020'' \<mapsto>
                     \<lparr>date = Date (UTC 2020 8 1 0), currencies = quotes_aug1\<rparr>],
           month = Str ''ago'', year = Num 2020\<rparr> row_aug2
        = Inr (Moment (UTC 2020 8 2 0))"
    by simp
  with fm fy e show ?thesis by simp
qed

section \<open>Entries of the output mapping\<close>

lemma step_dom_mono:
  assumes "step COL CURR parse lastDate st line = Inr st'" "days st k \<noteq> None"
  shows "days st' k \<noteq> None"
  using assms(1)
proof (cases rule: step_Inr)
  case (1 d)
  with assms(2) show ?thesis by (simp add: carry_def)
next
  case (2 d cs)
  with assms(2) show ?thesis by (simp add: carry_def)
qed

lemma loop_dom_mono:
  "loop COL CURR parse lastDate st xs = Inr st' \<Longrightarrow> days st k \<noteq> None \<Longrightarrow> days st' k \<noteq> None"
proof (induction xs arbitrary: st)
  case Nil
  then show ?case by simp
next
  case (Cons x xs)
  from Cons.prems(1) obtain s where s: "step COL CURR parse lastDate st x = Inr s"
    and l: "loop COL CURR parse lastDate s xs = Inr st'"
    by (auto simp: bindE_eq_Inr)
  from s Cons.prems(2) have "days s k \<noteq> None" by (rule step_dom_mono)
  with l show ?case by (rule Cons.IH)
qed

lemma isSameOrBefore_null: "\<not> isSameOrBefore d None"
  by (cases d) simp_all

text \<open>
  Claim C10. On an empty store \<open>getLastDate\<close> answers \<open>null\<close>; against \<open>null\<close> the
  same-or-before test excludes no date, and every row of a run that returns has an
  entry in the output mapping under the key its date formats to (the entry is that of
  the last row with this key).
\<close>

theorem C10_empty_store_filters_nothing:
  assumes empty: "table db = []"
    and last: "getLastDate db = Inr lastDate"
    and run: "makeArrayOfDays COL CURR parse lastDate (pre @ r # post) = Inr out"
  shows "lastDate = None \<and> \<not> isSameOrBefore m lastDate
         \<and> (\<exists>st d rec. loop COL CURR parse lastDate init pre = Inr st
               \<and> resolve COL parse st r = Inr d \<and> out (format_L d) = Some rec)"
proof -
  from last empty have n: "lastDate = None"
    by (auto simp: getLastDate_def split: if_splits)
  from run obtain stf where f: "loop COL CURR parse lastDate init (pre @ r # post) = Inr stf"
    and out: "out = days stf"
    by (rule makeArrayOfDays_Inr)
  from f obtain st s where p: "loop COL CURR parse lastDate init pre = Inr st"
    and s: "step COL CURR parse lastDate st r = Inr s"
    and l: "loop COL CURR parse lastDate s post = Inr stf"
    by (auto simp: loop_append bindE_eq_Inr)
  from s obtain d where d: "resolve COL parse st r = Inr d" and k: "days s (format_L d) \<noteq> None"
  proof (cases rule: step_Inr)
    case (1 d)
    with n show ?thesis by (simp add: isSameOrBefore_null)
  next
    case (2 d cs)
    then have "days s (format_L d) \<noteq> None" by (simp add: carry_def)
    with 2(1) show ?thesis by (rule that)
  qed
  from l k have "days stf (format_L d) \<noteq> None" by (rule loop_dom_mono)
  with out obtain rec where "out (format_L d) = Some rec" by auto
  with p d n show ?thesis by (auto simp: isSameOrBefore_null)
qed

theorem C10_witness:
  "table store0 = [] \<and> getLastDate store0 = Inr None
   \<and> bindE (makeArrayOfDays COL0 CURR0 (moment_utc today0) None [row_aug1, row_aug2])
        (\<lambda>out. Inr (out ''01/08/2020''))
      = Inr (Some \<lparr>date = Date (UTC 2020 8 1 0), currencies = quotes_aug1\<rparr>)"
proof -
  let ?out = "[''01/08/2020'' \<mapsto> \<lparr>date = Date (UTC 2020 8 1 0), currencies = quotes_aug1\<rparr>,
               ''02/08/2020'' \<mapsto> \<lparr>date = Date (UTC 2020 8 2 0),
                                   currencies = usd_only ''70.7'' ''71.2''\<rparr>]"
  have e: "table store0 = []" and g: "getLastDate store0 = Inr None"
    by (simp_all add: store0_def getLastDate_def)
  have run: "makeArrayOfDays COL0 CURR0 (moment_utc today0) None ([] @ row_aug1 # [row_aug2]) = Inr ?out"
    unfolding append_Nil makeArrayOfDays_def run_two_rows by simp
  from C10_empty_store_filters_nothing [OF e g run] e g run show ?thesis
    by simp
qed

lemma loop_untouched:
  "loop COL CURR parse lastDate st post = Inr stf
     \<Longrightarrow> \<forall>p r q s d. post = p @ r # q \<longrightarrow> loop COL CURR parse lastDate st p = Inr s
            \<longrightarrow> resolve COL parse s r = Inr d \<longrightarrow> format_L d \<noteq> k
     \<Longrightarrow> days stf k = days st k"
proof (induction post arbitrary: st)
  case Nil
  then show ?case by simp
next
  case (Cons x xs)
  from Cons.prems(1) obtain s1 where s: "step COL CURR parse lastDate st x = Inr s1"
    and l: "loop COL CURR parse lastDate s1 xs = Inr stf"
    by (auto simp: bindE_eq_Inr)
  have here: "\<And>d. resolve COL parse st x = Inr d \<Longrightarrow> format_L d \<noteq> k"
  proof -
    fix d
    assume "resolve COL parse st x = Inr d"
    moreover have "x # xs = [] @ x # xs" by simp
    moreover have "loop COL CURR parse lastDate st [] = Inr st" by simp
    ultimately show "format_L d \<noteq> k" using Cons.prems(2) by blast
  qed
  from s have a: "days s1 k = days st k"
  proof (cases rule: step_Inr)
    case (1 d)
    then show ?thesis by (simp add: carry_def)
  next
    case (2 d cs)
    with here [OF 2(1)] show ?thesis by (simp add: carry_def)
  qed
  have "\<forall>p r q s' d. xs = p @ r # q \<longrightarrow> loop COL CURR parse lastDate s1 p = Inr s'
          \<longrightarrow> resolve COL parse s' r = Inr d \<longrightarrow> format_L d \<noteq> k"
  proof (intro allI impI)
    fix p r q s' d
    assume "xs = p @ r # q" and "loop COL CURR parse lastDate s1 p = Inr s'"
      and r: "resolve COL parse s' r = Inr d"
    with s have "x # xs = (x # p) @ r # q" "loop COL CURR parse lastDate st (x # p) = Inr s'"
      by simp_all
    with r show "format_L d \<noteq> k" using Cons.prems(2) by blast
  qed
  with l have "days stf k = days s1 k" by (rule Cons.IH)
  with a show ?case by simp
qed

text \<open>
  Claim C6. When two rows resolve to the same date, both pass the test against
  \<open>lastDate\<close>, and no row after the second formats to that date, the output mapping
  has one entry with that date, under the key the date formats to, and it is the day
  built from the second row.
\<close>

theorem C6_last_row_wins:
  assumes run: "makeArrayOfDays COL CURR parse lastDate (pre @ r1 # mid @ r2 # post) = Inr out"
    and s1: "loop COL CURR parse lastDate init pre = Inr st1"
    and d1: "resolve COL parse st1 r1 = Inr d"
    and s2: "loop COL CURR parse lastDate init (pre @ r1 # mid) = Inr st2"
    and d2: "resolve COL parse st2 r2 = Inr d"
    and pass: "\<not> isSameOrBefore d lastDate"
    and s3: "step COL CURR parse lastDate st2 r2 = Inr st3"
    and later: "\<forall>p r q s d'. post = p @ r # q \<longrightarrow> loop COL CURR parse lastDate st3 p = Inr s
                  \<longrightarrow> resolve COL parse s r = Inr d' \<longrightarrow> format_L d' \<noteq> format_L d"
  shows "\<exists>cs. mkCurrencies COL CURR r2 = Inr cs
           \<and> out (format_L d) = Some \<lparr>date = toDate d, currencies = cs\<rparr>
           \<and> (\<forall>k rec. out k = Some rec \<and> date rec = toDate d \<longrightarrow> k = format_L d)"
proof -
  from run obtain stf where f: "loop COL CURR parse lastDate init (pre @ r1 # mid @ r2 # post) = Inr stf"
    and out: "out = days stf"
    by (rule makeArrayOfDays_Inr)
  from f have "loop COL CURR parse lastDate init ((pre @ r1 # mid) @ r2 # post) = Inr stf"
    by simp
  then have "bindE (loop COL CURR parse lastDate init (pre @ r1 # mid))
               (\<lambda>s. loop COL CURR parse lastDate s (r2 # post)) = Inr stf"
    by (simp only: loop_append)
  with s2 have "loop COL CURR parse lastDate st2 (r2 # post) = Inr stf"
    by (simp only: bindE_Inr)
  with s3 have l: "loop COL CURR parse lastDate st3 post = Inr stf" by simp
  from s3 obtain cs where cs: "mkCurrencies COL CURR r2 = Inr cs"
    and st3: "days st3 (format_L d) = Some \<lparr>date = toDate d, currencies = cs\<rparr>"
  proof (cases rule: step_Inr)
    case (1 d')
    with d2 pass show ?thesis by simp
  next
    case (2 d' cs)
    with d2 have "d' = d" by simp
    with 2 have "mkCurrencies COL CURR r2 = Inr cs"
      "days st3 (format_L d) = Some \<lparr>date = toDate d, currencies = cs\<rparr>"
      by (simp_all add: carry_def)
    then show ?thesis by (rule that)
  qed
  from l later have "days stf (format_L d) = days st3 (format_L d)" by (rule loop_untouched)
  with st3 out have e: "out (format_L d) = Some \<lparr>date = toDate d, currencies = cs\<rparr>" by simp
  from run have fr: "fresh lastDate out" by (rule makeArrayOfDays_fresh)
  have "\<forall>k rec. out k = Some rec \<and> date rec = toDate d \<longrightarrow> k = format_L d"
  proof (intro allI impI)
    fix k rec
    assume a: "out k = Some rec \<and> date rec = toDate d"
    with fr obtain m where m: "k = format_L m" "date rec = toDate m"
      unfolding fresh_def by blast
    with a have "toDate m = toDate d" by simp
    then have "m = d" by (rule toDate_inj)
    with m show "k = format_L d" by simp
  qed
  with cs e show ?thesis by blast
qed

theorem C6_witness:
  "bindE (makeArrayOfDays COL0 CURR0 (moment_utc today0) (Some (Date (UTC 2020 7 31 0)))
            [row_aug1, row_aug2, row_aug1_again, row_aug3])
     (\<lambda>out. Inr (out ''01/08/2020''))
   = Inr (Some \<lparr>date = Date (UTC 2020 8 1 0), currencies = usd_only ''99.9'' ''100''\<rparr>)
   \<and> resolve COL0 (moment_utc today0) init row_aug1 = Inr (Moment (UTC 2020 8 1 0))
   \<and> mkCurrencies COL0 CURR0 row_aug1 = Inr quotes_aug1"
proof -
  let ?L = "Some (Date (UTC 2020 7 31 0))"
  let ?d = "Moment (UTC 2020 8 1 0)"
  let ?r1 = "\<lparr>date = Date (UTC 2020 8 1 0), currencies = quotes_aug1\<rparr>"
  let ?r2 = "\<lparr>date = Date (UTC 2020 8 2 0), currencies = usd_only ''70.7'' ''71.2''\<rparr>"
  let ?r1' = "\<lparr>date = Date (UTC 2020 8 1 0), currencies = usd_only ''99.9'' ''100''\<rparr>"
  let ?r3 = "\<lparr>date = Date (UTC 2020 8 3 0), currencies = usd_only ''70.9'' ''71.4''\<rparr>"
  let ?st2 = "\<lparr>days = [''01/08/2020'' \<mapsto> ?r1, ''02/08/2020'' \<mapsto> ?r2],
              month = Str ''ago'', year = Num 2020\<rparr>"
  let ?st3 = "\<lparr>days = [''01/08/2020'' \<mapsto> ?r1, ''02/08/2020'' \<mapsto> ?r2, ''01/08/2020'' \<mapsto> ?r1'],
              month = Str ''Agosto '', year = Num 2020\<rparr>"
  let ?out = "[''01/08/2020'' \<mapsto> ?r1, ''02/08/2020'' \<mapsto> ?r2, ''01/08/2020'' \<mapsto> ?r1',
               ''03/08/2020'' \<mapsto> ?r3]"
  have run: "makeArrayOfDays COL0 CURR0 (moment_utc today0) ?L
               ([] @ row_aug1 # [row_aug2] @ row_aug1_again # [row_aug3]) = Inr ?out"
    by (simp add: run_defs row_defs)
  have s1: "loop COL0 CURR0 (moment_utc today0) ?L init [] = Inr init" by simp
  have d1: "resolve COL0 (moment_utc today0) init row_aug1 = Inr ?d"
    by (simp add: run_defs row_defs)
  have s2: "loop COL0 CURR0 (moment_utc today0) ?L init ([] @ row_aug1 # [row_aug2]) = Inr ?st2"
    by (simp add: run_defs row_defs)
  have d2: "resolve COL0 (moment_utc today0) ?st2 row_aug1_again = Inr ?d"
    by (simp add: run_defs row_defs)
  have pass: "\<not> isSameOrBefore ?d ?L" by simp
  have s3: "step COL0 CURR0 (moment_utc today0) ?L ?st2 row_aug1_again = Inr ?st3"
    by (simp add: run_defs row_defs)
  have later: "\<forall>p r q s d'. [row_aug3] = p @ r # q
      \<longrightarrow> loop COL0 CURR0 (moment_utc today0) ?L ?st3 p = Inr s
      \<longrightarrow> resolve COL0 (moment_utc today0) s r = Inr d' \<longrightarrow> format_L d' \<noteq> format_L ?d"
  proof (intro allI impI)
    fix p r q s d'
    assume a: "[row_aug3] = p @ r # q"
      and b: "loop COL0 CURR0 (moment_utc today0) ?L ?st3 p = Inr s"
      and c: "resolve COL0 (moment_utc today0) s r = Inr d'"
    from a have p: "p = []" and r: "r = row_aug3" by (simp_all add: Cons_eq_append_conv)
    from b p have "s = ?st3" by simp
    with c r have "d' = Moment (UTC 2020 8 3 0)" by (simp add: run_defs row_defs)
    then show "format_L d' \<noteq> format_L ?d" by (simp add: run_defs)
  qed
  have m: "mkCurrencies COL0 CURR0 row_aug1 = Inr quotes_aug1"
    by (simp add: run_defs row_defs)
  have m2: "mkCurrencies COL0 CURR0 row_aug1_again = Inr (usd_only ''99.9'' ''100'')"
    by (simp add: run_defs row_defs)
  have k: "format_L ?d = ''01/08/2020''"
    by (simp add: zeroFill_def digits.simps digit_char_def)
  from C6_last_row_wins [OF run s1 d1 s2 d2 pass s3 later]
  obtain cs where cs: "mkCurrencies COL0 CURR0 row_aug1_again = Inr cs"
    and o: "?out (format_L ?d) = Some \<lparr>date = toDate ?d, currencies = cs\<rparr>"
    by blast
  from cs m2 have "cs = usd_only ''99.9'' ''100''" by simp
  with o k have "?out ''01/08/2020'' = Some ?r1'" by simp
  with run d1 m show ?thesis by simp
qed

section \<open>Rows that do not name a calendar date\<close>

text \<open>
  Claim C2, as stated, at the row 31 feb 2020 followed by the row 1 ago 2020: no error
  is raised, the date resolves to an invalid moment, and the row is not skipped but
  stored in the output mapping under the invalid-date key.
\<close>

theorem C2_invalid_date_row_counterexample:
  "resolve COL0 (moment_utc today0) init row_feb31 = Inr InvalidMoment
   \<and> makeArrayOfDays COL0 CURR0 (moment_utc today0) None [row_feb31, row_aug1]
     = Inr [invalidDate \<mapsto> \<lparr>date = InvalidDate, currencies = usd_only ''70.7'' ''71.2''\<rparr>,
            ''01/08/2020'' \<mapsto> \<lparr>date = Date (UTC 2020 8 1 0), currencies = quotes_aug1\<rparr>]"
  by (simp add: run_defs row_defs)

lemma purgeMonth_Inl: "purgeMonth c = Inl e \<Longrightarrow> e = TypeError"
  by (cases c) simp_all

lemma resolve_Inl: "resolve COL parse st r = Inl e \<Longrightarrow> e = TypeError"
  by (cases "purgeMonth (month (carry COL st r))")
     (auto simp: resolve_def getDate_def dest: purgeMonth_Inl)

lemma format_L_valid: "format_L (Moment i) \<noteq> invalidDate"
proof -
  have "CHR ''/'' \<in> set (format_L (Moment i))" by (cases i) simp
  moreover have "CHR ''/'' \<notin> set invalidDate" by (simp add: invalidDate_def)
  ultimately show ?thesis by metis
qed

lemma loop_reach:
  assumes "loop COL CURR parse lastDate init pre = Inr st"
  shows "loop COL CURR parse lastDate init (pre @ r # post) =
           bindE (step COL CURR parse lastDate st r) (\<lambda>s. loop COL CURR parse lastDate s post)"
  using assms by (simp add: loop_append)

text \<open>
  Claim C2, amended. Date resolution raises no per-row error and no row is skipped
  for its date. It fails only with a TypeError (the month carried to the row is not a
  string), and that failure ends the whole run without an output mapping. The
  same-or-before test never takes an invalid moment: when the parser makes an invalid
  moment of a row's day, month and year, a run that returns has an entry with an
  invalid date under the invalid-date key, the row's own day is stored there when its
  cells are read without error, and the loop goes on with the remaining rows; when
  reading its cells fails, the whole run fails.
\<close>

theorem C2_invalid_date_row_is_stored:
  assumes reach: "loop COL CURR parse lastDate init pre = Inr st"
  shows "(\<forall>e. resolve COL parse st r = Inl e \<longrightarrow>
            e = TypeError
            \<and> makeArrayOfDays COL CURR parse lastDate (pre @ r # post) = Inl TypeError)
         \<and> \<not> isSameOrBefore InvalidMoment lastDate
         \<and> (resolve COL parse st r = Inr InvalidMoment \<longrightarrow>
              (\<forall>out. makeArrayOfDays COL CURR parse lastDate (pre @ r # post) = Inr out \<longrightarrow>
                 (\<exists>cs. out invalidDate = Some \<lparr>date = InvalidDate, currencies = cs\<rparr>))
              \<and> (\<forall>cs. mkCurrencies COL CURR r = Inr cs \<longrightarrow>
                   loop COL CURR parse lastDate init (pre @ r # post) =
                     loop COL CURR parse lastDate
                       ((carry COL st r)
                          \<lparr>days := (days st)(invalidDate \<mapsto>
                                     \<lparr>date = InvalidDate, currencies = cs\<rparr>)\<rparr>)
                       post)
              \<and> (\<forall>e. mkCurrencies COL CURR r = Inl e \<longrightarrow>
                   makeArrayOfDays COL CURR parse lastDate (pre @ r # post) = Inl e))"
proof -
  note run = loop_reach [OF reach, of r post]
  have a: "\<forall>e. resolve COL parse st r = Inl e \<longrightarrow>
            e = TypeError
            \<and> makeArrayOfDays COL CURR parse lastDate (pre @ r # post) = Inl TypeError"
  proof (intro allI impI)
    fix e
    assume f: "resolve COL parse st r = Inl e"
    then have e: "e = TypeError" by (rule resolve_Inl)
    from f e have "step COL CURR parse lastDate st r = Inl TypeError" by (simp add: step_def)
    with run have "makeArrayOfDays COL CURR parse lastDate (pre @ r # post) = Inl TypeError"
      by (simp add: makeArrayOfDays_def)
    with e show "e = TypeError
        \<and> makeArrayOfDays COL CURR parse lastDate (pre @ r # post) = Inl TypeError"
      by simp
  qed
  have b: "\<not> isSameOrBefore InvalidMoment lastDate" by simp
  have c: "resolve COL parse st r = Inr InvalidMoment \<longrightarrow>
              (\<forall>out. makeArrayOfDays COL CURR parse lastDate (pre @ r # post) = Inr out \<longrightarrow>
                 (\<exists>cs. out invalidDate = Some \<lparr>date = InvalidDate, currencies = cs\<rparr>))
              \<and> (\<forall>cs. mkCurrencies COL CURR r = Inr cs \<longrightarrow>
                   loop COL CURR parse lastDate init (pre @ r # post) =
                     loop COL CURR parse lastDate
                       ((carry COL st r)
                          \<lparr>days := (days st)(invalidDate \<mapsto>
                                     \<lparr>date = InvalidDate, currencies = cs\<rparr>)\<rparr>)
                       post)
              \<and> (\<forall>e. mkCurrencies COL CURR r = Inl e \<longrightarrow>
                   makeArrayOfDays COL CURR parse lastDate (pre @ r # post) = Inl e)"
  proof (intro impI conjI allI)
    fix out
    assume inv: "resolve COL parse st r = Inr InvalidMoment"
      and ret: "makeArrayOfDays COL CURR parse lastDate (pre @ r # post) = Inr out"
    from ret obtain stf where f: "loop COL CURR parse lastDate init (pre @ r # post) = Inr stf"
      and out: "out = days stf"
      by (rule makeArrayOfDays_Inr)
    from f run obtain s where s: "step COL CURR parse lastDate st r = Inr s"
      and l: "loop COL CURR parse lastDate s post = Inr stf"
      by (auto simp: bindE_eq_Inr)
    from s have "days s invalidDate \<noteq> None"
    proof (cases rule: step_Inr)
      case (1 d)
      with inv show ?thesis by simp
    next
      case (2 d cs)
      with inv show ?thesis by (simp add: carry_def)
    qed
    with l have "days stf invalidDate \<noteq> None" by (rule loop_dom_mono)
    with out obtain rec where rec: "out invalidDate = Some rec" by auto
    from ret have "fresh lastDate out" by (rule makeArrayOfDays_fresh)
    with rec obtain m where m: "invalidDate = format_L m" "date rec = toDate m"
      unfolding fresh_def by blast
    have "m = InvalidMoment"
    proof (cases m)
      case (Moment i)
      with m(1) have "format_L (Moment i) = invalidDate" by simp
      with format_L_valid show ?thesis by blast
    next
      case InvalidMoment
      then show ?thesis .
    qed
    with m(2) have "date rec = InvalidDate" by simp
    then have "rec = \<lparr>date = InvalidDate, currencies = currencies rec\<rparr>" by simp
    with rec show "\<exists>cs. out invalidDate = Some \<lparr>date = InvalidDate, currencies = cs\<rparr>"
      by metis
  next
    fix cs
    assume "resolve COL parse st r = Inr InvalidMoment" and "mkCurrencies COL CURR r = Inr cs"
    then have "step COL CURR parse lastDate st r =
        Inr ((carry COL st r)
               \<lparr>days := (days st)(invalidDate \<mapsto> \<lparr>date = InvalidDate, currencies = cs\<rparr>)\<rparr>)"
      by (simp add: step_def)
    with run show "loop COL CURR parse lastDate init (pre @ r # post) =
        loop COL CURR parse lastDate
          ((carry COL st r)
             \<lparr>days := (days st)(invalidDate \<mapsto> \<lparr>date = InvalidDate, currencies = cs\<rparr>)\<rparr>)
          post"
      by simp
  next
    fix e
    assume "resolve COL parse st r = Inr InvalidMoment" and "mkCurrencies COL CURR r = Inl e"
    then have "step COL CURR parse lastDate st r = Inl e" by (simp add: step_def)
    with run show "makeArrayOfDays COL CURR parse lastDate (pre @ r # post) = Inl e"
      by (simp add: makeArrayOfDays_def)
  qed
  from a b c show ?thesis by blast
qed

theorem C2_witness:
  "resolve COL0 (moment_utc today0) init row_feb31 = Inr InvalidMoment
   \<and> bindE (makeArrayOfDays COL0 CURR0 (moment_utc today0) (Some (Date (UTC 2020 7 31 0)))
              [row_feb31, row_aug1])
        (\<lambda>out. Inr (out invalidDate))
      = Inr (Some \<lparr>date = InvalidDate, currencies = usd_only ''70.7'' ''71.2''\<rparr>)
   \<and> resolve COL0 (moment_utc today0) init row_month_number = Inl TypeError
   \<and> makeArrayOfDays COL0 CURR0 (moment_utc today0) (Some (Date (UTC 2020 7 31 0)))
        [row_month_number, row_aug1] = Inl TypeError"
proof -
  let ?L = "Some (Date (UTC 2020 7 31 0))"
  let ?out = "[invalidDate \<mapsto> \<lparr>date = InvalidDate, currencies = usd_only ''70.7'' ''71.2''\<rparr>,
               ''01/08/2020'' \<mapsto> \<lparr>date = Date (UTC 2020 8 1 0), currencies = quotes_aug1\<rparr>]"
  have reach: "loop COL0 CURR0 (moment_utc today0) ?L init [] = Inr init" by simp
  have r: "resolve COL0 (moment_utc today0) init row_feb31 = Inr InvalidMoment"
    by (simp add: run_defs row_defs)
  have run: "makeArrayOfDays COL0 CURR0 (moment_utc today0) ?L ([] @ row_feb31 # [row_aug1])
               = Inr ?out"
    by (simp add: run_defs row_defs)
  have n: "resolve COL0 (moment_utc today0) init row_month_number = Inl TypeError"
    by (simp add: run_defs row_defs)
  from C2_invalid_date_row_is_stored [OF reach, of row_feb31 "[row_aug1]"] r run
  obtain cs where "?out invalidDate = Some \<lparr>date = InvalidDate, currencies = cs\<rparr>"
    by blast
  then have o: "?out invalidDate
      = Some \<lparr>date = InvalidDate, currencies = usd_only ''70.7'' ''71.2''\<rparr>"
    by (simp add: invalidDate_def)
  from C2_invalid_date_row_is_stored [OF reach, of row_month_number "[row_aug1]"] n
  have t: "makeArrayOfDays COL0 CURR0 (moment_utc today0) ?L ([] @ row_month_number # [row_aug1])
             = Inl TypeError"
    by blast
  from r run o n t show ?thesis by simp
qed

section \<open>The loader\<close>

lemma inserts_of_Cons:
  "inserts_of (d # ds) =
     map (\<lambda>currency. (iso currency, date d, buy currency, sell currency)) (currencies d)
       @ inserts_of ds"
  by (simp add: inserts_of_def)

lemma length_inserts_of:
  "\<forall>d\<in>set ds. length (currencies d) = 4 \<Longrightarrow> length (inserts_of ds) = 4 * length ds"
  by (induction ds) (simp_all add: inserts_of_Cons, simp add: inserts_of_def)

lemma nth_inserts_of:
  "\<forall>d\<in>set ds. length (currencies d) = 4 \<Longrightarrow> i < length ds \<Longrightarrow> j < 4 \<Longrightarrow>
     inserts_of ds ! (4 * i + j) =
       (iso (currencies (ds ! i) ! j), date (ds ! i),
        buy (currencies (ds ! i) ! j), sell (currencies (ds ! i) ! j))"
proof (induction ds arbitrary: i)
  case Nil
  then show ?case by simp
next
  case (Cons d ds)
  from Cons.prems(1) have four: "length (currencies d) = 4" by simp
  show ?case
  proof (cases i)
    case 0
    with four Cons.prems(3) show ?thesis
      by (simp add: inserts_of_Cons nth_append)
  next
    case (Suc i')
    with Cons.prems have "inserts_of ds ! (4 * i' + j) =
        (iso (currencies (ds ! i') ! j), date (ds ! i'),
         buy (currencies (ds ! i') ! j), sell (currencies (ds ! i') ! j))"
      by (simp add: Cons.IH)
    moreover have "4 * i + j - 4 = 4 * i' + j" using Suc by simp
    ultimately show ?thesis using four Suc
      by (simp add: inserts_of_Cons nth_append)
  qed
qed

text \<open>
  Claim C7. Handed a non-empty array of \<open>n\<close> days with four quotes each, on a
  connection that accepts the statement, \<open>insertDays\<close> sends one \<open>INSERT\<close> of
  \<open>4 * n\<close> rows and answers \<open>4 * n\<close>: the row \<open>4 * i + j\<close> holds quote \<open>j\<close> of
  day \<open>i\<close> with that day's date.
\<close>

theorem C7_one_row_per_day_and_currency:
  assumes "ds \<noteq> []"
    and "\<forall>d\<in>set ds. length (currencies d) = 4"
    and "\<not> fault db"
  shows "insertDays db (Arr ds) =
           (Inr (4 * length ds),
            db\<lparr>writes := Suc (writes db), table := table db @ inserts_of ds\<rparr>)
         \<and> length (inserts_of ds) = 4 * length ds
         \<and> (\<forall>i j. i < length ds \<and> j < 4 \<longrightarrow>
               inserts_of ds ! (4 * i + j) =
                 (iso (currencies (ds ! i) ! j), date (ds ! i),
                  buy (currencies (ds ! i) ! j), sell (currencies (ds ! i) ! j)))"
proof -
  from assms(2) have len: "length (inserts_of ds) = 4 * length ds" by (rule length_inserts_of)
  with assms(1) have "inserts_of ds \<noteq> []" by auto
  with assms(1,3) len have "insertDays db (Arr ds) =
      (Inr (4 * length ds), db\<lparr>writes := Suc (writes db), table := table db @ inserts_of ds\<rparr>)"
    by (simp add: insert_query_def)
  with len assms(2) show ?thesis by (simp add: nth_inserts_of)
qed

theorem C7_witness:
  "[\<lparr>date = Date (UTC 2020 8 2 0), currencies = usd_only ''70.7'' ''71.2''\<rparr>] \<noteq> []
   \<and> \<not> fault store0
   \<and> insertDays store0 (Arr [\<lparr>date = Date (UTC 2020 8 2 0),
                                currencies = usd_only ''70.7'' ''71.2''\<rparr>])
     = (Inr 4,
        \<lparr>table = [(''USD'', Date (UTC 2020 8 2 0), Some ''70.7'', Some ''71.2''),
                   (''ARS'', Date (UTC 2020 8 2 0), None, None),
                   (''BRL'', Date (UTC 2020 8 2 0), None, None),
                   (''EUR'', Date (UTC 2020 8 2 0), None, None)],
         fault = False, writes = 1\<rparr>)"
proof -
  let ?ds = "[\<lparr>date = Date (UTC 2020 8 2 0), currencies = usd_only ''70.7'' ''71.2''\<rparr>]"
  have n: "?ds \<noteq> []" by simp
  have four: "\<forall>d\<in>set ?ds. length (currencies d) = 4" by (simp add: usd_only_def)
  have ok: "\<not> fault store0" by (simp add: store0_def)
  from C7_one_row_per_day_and_currency [OF n four ok] ok show ?thesis
    by (simp add: inserts_of_def usd_only_def store0_def)
qed

text \<open>The hand-over of the object fails for every sheet: \<open>seed\<close> never reports a count.\<close>

lemma seed_never_counts: "fst (seed COL CURR parse db sheet) \<noteq> Inr n"
  by (simp add: seed_def split: sum.splits)

text \<open>
  Claim C8, at the empty sheet on an empty store. The aggregator's result is the empty
  object, which \<open>seed\<close> hands to \<open>insertDays\<close> as it is: the guard for empty input does
  not recognise it and the call throws a TypeError instead of answering 0 (no
  statement is sent), so that \<open>seed\<close> answers 0 for no store and no sheet. Handed an
  empty array, \<open>insertDays\<close> answers 0 and leaves the store as it was.
\<close>

theorem C8_empty_mapping_is_not_short_circuited:
  "makeArrayOfDays COL CURR parse lastDate [] = Inr Map.empty
   \<and> insertDays db (Obj Map.empty) = (Inl TypeError, db)
   \<and> seed COL CURR parse store0 [] = (Inl TypeError, store0)
   \<and> fst (seed COL CURR parse db sheet) \<noteq> Inr 0
   \<and> insertDays db (Arr []) = (Inr 0, db)"
  using seed_never_counts [of COL CURR parse db sheet 0]
  by (simp add: makeArrayOfDays_def init_def seed_def getLastDate_def store0_def
      usefulLines_def)

end
